theory Spec2Isabelle
  imports Main "HOL-Library.Sublist"
begin

section \<open>Python values used by visualize.py\<close>

subsection \<open>Text\<close>

text \<open>
  A Python \<^verbatim>\<open>str\<close> is a sequence of Unicode code points. A code point is a natural
  number here, so that the line boundaries and the white space beyond ASCII that
  \<^verbatim>\<open>str.splitlines\<close> and \<^verbatim>\<open>str.strip\<close> know are part of the model. Literals of the
  script are ASCII and written \<open>ascii ''...''\<close>.
\<close>

type_synonym codepoint = nat
type_synonym str = "codepoint list"

definition ascii :: "string \<Rightarrow> str" where
  "ascii s = map of_char s"

text \<open>The line boundaries of \<^verbatim>\<open>str.splitlines\<close>: LF, VT, FF, CR, FS, GS, RS, NEL, LS, PS.\<close>

definition is_linebreak :: "codepoint \<Rightarrow> bool" where
  "is_linebreak c \<longleftrightarrow>
     c = 0x0A \<or> c = 0x0B \<or> c = 0x0C \<or> c = 0x0D \<or> c = 0x1C \<or> c = 0x1D \<or> c = 0x1E \<or>
     c = 0x85 \<or> c = 0x2028 \<or> c = 0x2029"

text \<open>The white space of \<^verbatim>\<open>str.isspace\<close>, which \<^verbatim>\<open>str.strip()\<close> removes.\<close>

definition isspace :: "codepoint \<Rightarrow> bool" where
  "isspace c \<longleftrightarrow>
     (0x09 \<le> c \<and> c \<le> 0x0D) \<or> (0x1C \<le> c \<and> c \<le> 0x1F) \<or> c = 0x20 \<or> c = 0x85 \<or>
     c = 0xA0 \<or> c = 0x1680 \<or> (0x2000 \<le> c \<and> c \<le> 0x200A) \<or> c = 0x2028 \<or> c = 0x2029 \<or>
     c = 0x202F \<or> c = 0x205F \<or> c = 0x3000"

text \<open>
  \<^verbatim>\<open>text.splitlines()\<close>: the text is cut at every line boundary, CR LF counts as one
  boundary, the boundaries are not kept, and a boundary at the very end of the text
  opens no further (empty) line. The first argument is the line read so far.
\<close>

fun splitlines_from :: "str \<Rightarrow> str \<Rightarrow> str list" where
  "splitlines_from line [] = (if line = [] then [] else [line])"
| "splitlines_from line [c] = (if is_linebreak c then [line] else [line @ [c]])"
| "splitlines_from line (c # d # ds) =
     (if c = 0x0D \<and> d = 0x0A then line # splitlines_from [] ds
      else if is_linebreak c then line # splitlines_from [] (d # ds)
      else splitlines_from (line @ [c]) (d # ds))"

definition splitlines :: "str \<Rightarrow> str list" where
  "splitlines text = splitlines_from [] text"

text \<open>\<^verbatim>\<open>s.strip()\<close>: white space is removed at both ends.\<close>

definition strip :: "str \<Rightarrow> str" where
  "strip s = rev (dropWhile isspace (rev (dropWhile isspace s)))"

text \<open>\<^verbatim>\<open>s.startswith(p)\<close>.\<close>

definition startswith :: "str \<Rightarrow> str \<Rightarrow> bool" where
  "startswith s p \<longleftrightarrow> prefix p s"

subsection \<open>Exceptions and indexing\<close>

text \<open>
  An exception that leaves the script is a value \<open>Inl e\<close>. \<open>RequestException\<close> stands
  for every failure of the transport (connection, timeout), \<open>HTTPError\<close> is what
  \<^verbatim>\<open>raise_for_status\<close> raises, \<open>IndexError\<close> is an index out of range, \<open>ValueError\<close>
  is what the constructor of a satellite raises on element lines it cannot read.
\<close>

datatype error = IndexError | HTTPError | RequestException | ValueError

text \<open>\<^verbatim>\<open>xs[i]\<close> for an index that is never negative in this script.\<close>

definition getitem :: "'a list \<Rightarrow> nat \<Rightarrow> error + 'a" where
  "getitem xs i = (if i < length xs then Inr (xs ! i) else Inl IndexError)"

text \<open>
  A \<^verbatim>\<open>for\<close> loop that appends one value per element: it stops at the first
  exception, which then is the result.
\<close>

fun for_each :: "('a \<Rightarrow> error + 'b) \<Rightarrow> 'a list \<Rightarrow> error + 'b list" where
  "for_each f [] = Inr []"
| "for_each f (x # xs) =
     (case f x of
        Inl e \<Rightarrow> Inl e
      | Inr y \<Rightarrow> (case for_each f xs of Inl e \<Rightarrow> Inl e | Inr ys \<Rightarrow> Inr (y # ys)))"

section \<open>load_satellites\<close>

text \<open>
  The network is the function that \<^verbatim>\<open>requests.get(url, timeout=10)\<close> evaluates: a
  response (status code and decoded text) or a transport failure.
\<close>

record response =
  status_code :: nat
  response_text :: str

type_synonym network = "str \<Rightarrow> error + response"

definition raise_for_status :: "response \<Rightarrow> error + unit" where
  "raise_for_status r =
     (if 400 \<le> status_code r \<and> status_code r < 600 then Inl HTTPError else Inr ())"

text \<open>
  \<^verbatim>\<open>EarthSatellite(line1, line2, name, ts)\<close> belongs to the astronomy library. The
  satellite it returns is the element record of the specification: the name and the two
  element lines it was built from. The time scale \<^verbatim>\<open>ts\<close> is a constant of the library
  and is left out.
\<close>

record EarthSatellite_rec =
  sat_name :: str
  sat_line1 :: str
  sat_line2 :: str

definition element_record :: "str \<Rightarrow> str \<Rightarrow> str \<Rightarrow> EarthSatellite_rec" where
  "element_record line1 line2 name = \<lparr>sat_name = name, sat_line1 = line1, sat_line2 = line2\<rparr>"

text \<open>
  The constructor parses the two element lines and raises \<^verbatim>\<open>ValueError\<close> on lines it
  cannot read: that is the case of a line that contains the character U+0000, and,
  depending on the implementation of the element-set parser that is installed, of lines
  that are not in the fixed format. Which arguments the constructor accepts is a
  parameter \<open>accepts\<close> (element line 1, element line 2, name) of everything that calls
  it.
\<close>

type_synonym element_check = "str \<Rightarrow> str \<Rightarrow> str \<Rightarrow> bool"

definition EarthSatellite ::
  "element_check \<Rightarrow> str \<Rightarrow> str \<Rightarrow> str \<Rightarrow> error + EarthSatellite_rec" where
  "EarthSatellite accepts line1 line2 name =
     (if accepts line1 line2 name then Inr (element_record line1 line2 name)
      else Inl ValueError)"

text \<open>The condition of the \<^verbatim>\<open>while\<close> loop (line 16).\<close>

definition loop_cond :: "str list \<Rightarrow> int \<Rightarrow> nat \<Rightarrow> EarthSatellite_rec list \<Rightarrow> bool" where
  "loop_cond lines max_sats i satellites \<longleftrightarrow>
     int (length satellites) < max_sats \<and> i + 2 < length lines"

text \<open>
  One pass through the body of the loop (lines 17 to 23), from \<open>i\<close> and \<open>satellites\<close>.
  An exception of the constructor ends the pass, and with it the loop and the function.
\<close>

definition loop_body ::
  "element_check \<Rightarrow> str list \<Rightarrow> nat \<Rightarrow> EarthSatellite_rec list \<Rightarrow>
     error + (nat \<times> EarthSatellite_rec list)" where
  "loop_body accepts lines i satellites =
     (case getitem lines i of Inl e \<Rightarrow> Inl e | Inr l0 \<Rightarrow>
      (case getitem lines (i + 1) of Inl e \<Rightarrow> Inl e | Inr l1 \<Rightarrow>
       (case getitem lines (i + 2) of Inl e \<Rightarrow> Inl e | Inr l2 \<Rightarrow>
          let name = strip l0; line1 = strip l1; line2 = strip l2 in
          if startswith line1 (ascii ''1 '') \<and> startswith line2 (ascii ''2 '')
          then (case EarthSatellite accepts line1 line2 name of
                  Inl e \<Rightarrow> Inl e
                | Inr sat \<Rightarrow> Inr (i + 3, satellites @ [sat]))
          else Inr (i + 3, satellites))))"

text \<open>
  The loop: the result is the state in which it is left, the scan index and the list of
  satellites.
\<close>

function load_loop ::
  "element_check \<Rightarrow> str list \<Rightarrow> int \<Rightarrow> nat \<Rightarrow> EarthSatellite_rec list \<Rightarrow>
     error + (nat \<times> EarthSatellite_rec list)"
  where
  "load_loop accepts lines max_sats i satellites =
     (if loop_cond lines max_sats i satellites then
        (case loop_body accepts lines i satellites of
           Inl e \<Rightarrow> Inl e
         | Inr (i', satellites') \<Rightarrow> load_loop accepts lines max_sats i' satellites')
      else Inr (i, satellites))"
  by pat_completeness auto
termination
  by (relation "measure (\<lambda>(accepts, lines, max_sats, i, satellites). length lines - i)")
    (auto simp: loop_cond_def loop_body_def getitem_def Let_def EarthSatellite_def
      split: if_splits)

declare load_loop.simps [simp del]

text \<open>The function itself (lines 7 to 24).\<close>

definition load_satellites ::
  "element_check \<Rightarrow> network \<Rightarrow> str \<Rightarrow> int \<Rightarrow> error + EarthSatellite_rec list" where
  "load_satellites accepts net url max_sats =
     (case net url of Inl e \<Rightarrow> Inl e | Inr response \<Rightarrow>
      (case raise_for_status response of Inl e \<Rightarrow> Inl e | Inr _ \<Rightarrow>
         let lines = splitlines (response_text response) in
         (case load_loop accepts lines max_sats 0 [] of
            Inl e \<Rightarrow> Inl e
          | Inr (i, satellites) \<Rightarrow> Inr satellites)))"

section \<open>The script\<close>

subsection \<open>Configuration (lines 26 to 30)\<close>

text \<open>
  The literal \<^verbatim>\<open>0.1\<close> is a floating-point number. The script only hands it to the
  astronomy library, so it is kept as the literal it is written as.
\<close>

datatype float_literal = FloatLiteral string

definition STARLINK_URL :: str where
  "STARLINK_URL = ascii ''https://celestrak.org/NORAD/elements/gp.php?GROUP=starlink&FORMAT=tle''"

definition MAX_SATS :: int where
  "MAX_SATS = 30"

definition DURATION_DAYS :: float_literal where
  "DURATION_DAYS = FloatLiteral ''0.1''"

definition NUM_FRAMES :: nat where
  "NUM_FRAMES = 300"

subsection \<open>Time grid and positions (lines 36 to 45)\<close>

text \<open>
  Instants and time grids belong to the astronomy library. They are kept as the calls
  that build them: \<^verbatim>\<open>ts.utc(year, month, day)\<close>, \<^verbatim>\<open>time + days\<close> and
  \<^verbatim>\<open>ts.linspace(t0, t1, num)\<close>.
\<close>

datatype time = utc int int int | plus_days time float_literal

datatype time_grid = linspace time time nat

definition start_time :: time where
  "start_time = utc 2026 2 1"

text \<open>The script's \<^verbatim>\<open>t\<close>.\<close>

definition t_grid :: time_grid where
  "t_grid = linspace start_time (plus_days start_time DURATION_DAYS) NUM_FRAMES"

text \<open>
  The propagator \<^verbatim>\<open>sat.at(t).position.km\<close> is a parameter \<open>at\<close> of the script: a
  function from a satellite and a time grid to a two-dimensional array, a list of rows.
  The coordinates are of any type \<open>'a\<close>: the script copies them and computes nothing
  with them.
\<close>

type_synonym 'a ndarray = "'a list list"

type_synonym 'a propagator = "EarthSatellite_rec \<Rightarrow> time_grid \<Rightarrow> 'a ndarray"

definition positions :: "'a propagator \<Rightarrow> EarthSatellite_rec list \<Rightarrow> 'a ndarray list" where
  "positions at satellites = map (\<lambda>sat. at sat t_grid) satellites"

definition names :: "EarthSatellite_rec list \<Rightarrow> str list" where
  "names satellites = map (\<lambda>sat. take 20 (sat_name sat)) satellites"

text \<open>\<^verbatim>\<open>pos[r, c]\<close> on a two-dimensional array, for indices that are never negative.\<close>

definition getitem2 :: "'a ndarray \<Rightarrow> nat \<Rightarrow> nat \<Rightarrow> error + 'a" where
  "getitem2 pos r c = (case getitem pos r of Inl e \<Rightarrow> Inl e | Inr row \<Rightarrow> getitem row c)"

subsection \<open>Colors (line 48)\<close>

text \<open>\<^verbatim>\<open>xs * n\<close> on a list: \<open>n\<close> copies of \<open>xs\<close>, none when \<open>n\<close> is negative.\<close>

definition list_mul :: "'a list \<Rightarrow> int \<Rightarrow> 'a list" where
  "list_mul xs n = concat (replicate (nat n) xs)"

definition palette :: "string list" where
  "palette = [''#636EFA'', ''#EF553B'', ''#00CC96'', ''#AB63FA'', ''#FFA15A'', ''#19D3F3'',
     ''#FF6692'', ''#B6E880'', ''#FF97FF'', ''#FECB52'']"

definition colors :: "string list" where
  "colors = list_mul palette (MAX_SATS div 10 + 1)"

subsection \<open>Traces, markers and frames (lines 65 to 104)\<close>

text \<open>
  \<^verbatim>\<open>go.Scatter3d\<close> with the attributes the script sets: \<^verbatim>\<open>line=dict(color, width)\<close>
  and \<^verbatim>\<open>marker=dict(size, color)\<close> are pairs, an attribute that is not set is \<open>None\<close>.
\<close>

record 'a Scatter3d =
  sc_x :: "'a list"
  sc_y :: "'a list"
  sc_z :: "'a list"
  sc_mode :: string
  sc_line :: "(string \<times> nat) option"
  sc_marker :: "(nat \<times> string) option"
  sc_name :: str
  sc_hoverinfo :: "string option"

text \<open>\<^verbatim>\<open>go.Frame(data, name)\<close>.\<close>

record 'a Frame =
  frame_data :: "'a Scatter3d list"
  frame_name :: string

text \<open>\<^verbatim>\<open>str(n)\<close> for a number that is not negative.\<close>

definition digit_char :: "nat \<Rightarrow> char" where
  "digit_char d = ''0123456789'' ! d"

fun str_nat :: "nat \<Rightarrow> string" where
  "str_nat n = (if n < 10 then [digit_char n] else str_nat (n div 10) @ [digit_char (n mod 10)])"

declare str_nat.simps [simp del]

text \<open>The static orbit traces (lines 66 to 74).\<close>

definition orbit_traces :: "'a propagator \<Rightarrow> EarthSatellite_rec list \<Rightarrow> error + 'a Scatter3d list"
  where
  "orbit_traces at satellites =
     for_each (\<lambda>(i, pos).
       case getitem pos 0 of Inl e \<Rightarrow> Inl e | Inr px \<Rightarrow>
       (case getitem pos 1 of Inl e \<Rightarrow> Inl e | Inr py \<Rightarrow>
        (case getitem pos 2 of Inl e \<Rightarrow> Inl e | Inr pz \<Rightarrow>
         (case getitem colors i of Inl e \<Rightarrow> Inl e | Inr color \<Rightarrow>
          (case getitem (names satellites) i of Inl e \<Rightarrow> Inl e | Inr name \<Rightarrow>
             Inr \<lparr>sc_x = px, sc_y = py, sc_z = pz, sc_mode = ''lines'',
                  sc_line = Some (color, 3), sc_marker = None, sc_name = name,
                  sc_hoverinfo = Some ''name''\<rparr>)))))
       (enumerate 0 (positions at satellites))"

text \<open>The initial markers (lines 77 to 85).\<close>

definition initial_markers ::
  "'a propagator \<Rightarrow> EarthSatellite_rec list \<Rightarrow> error + 'a Scatter3d list" where
  "initial_markers at satellites =
     for_each (\<lambda>i.
       case getitem (positions at satellites) i of Inl e \<Rightarrow> Inl e | Inr pos \<Rightarrow>
       (case getitem2 pos 0 0 of Inl e \<Rightarrow> Inl e | Inr px \<Rightarrow>
        (case getitem2 pos 1 0 of Inl e \<Rightarrow> Inl e | Inr py \<Rightarrow>
         (case getitem2 pos 2 0 of Inl e \<Rightarrow> Inl e | Inr pz \<Rightarrow>
          (case getitem colors i of Inl e \<Rightarrow> Inl e | Inr color \<Rightarrow>
           (case getitem (names satellites) i of Inl e \<Rightarrow> Inl e | Inr name \<Rightarrow>
              Inr \<lparr>sc_x = [px], sc_y = [py], sc_z = [pz], sc_mode = ''markers'',
                   sc_line = None, sc_marker = Some (8, color), sc_name = name,
                   sc_hoverinfo = None\<rparr>))))))
       [0..<length satellites]"

text \<open>
  The animation frames (lines 91 to 102): \<open>marker_updates\<close> is the inner loop, the list
  of the markers of one frame.
\<close>

definition marker_updates ::
  "'a propagator \<Rightarrow> EarthSatellite_rec list \<Rightarrow> nat \<Rightarrow> error + 'a Scatter3d list" where
  "marker_updates at satellites frame_num =
     for_each (\<lambda>i.
       case getitem (positions at satellites) i of Inl e \<Rightarrow> Inl e | Inr pos \<Rightarrow>
       (case getitem2 pos 0 frame_num of Inl e \<Rightarrow> Inl e | Inr px \<Rightarrow>
        (case getitem2 pos 1 frame_num of Inl e \<Rightarrow> Inl e | Inr py \<Rightarrow>
         (case getitem2 pos 2 frame_num of Inl e \<Rightarrow> Inl e | Inr pz \<Rightarrow>
          (case getitem colors i of Inl e \<Rightarrow> Inl e | Inr color \<Rightarrow>
           (case getitem (names satellites) i of Inl e \<Rightarrow> Inl e | Inr name \<Rightarrow>
              Inr \<lparr>sc_x = [px], sc_y = [py], sc_z = [pz], sc_mode = ''markers'',
                   sc_line = None, sc_marker = Some (8, color), sc_name = name,
                   sc_hoverinfo = None\<rparr>))))))
       [0..<length satellites]"

definition frames :: "'a propagator \<Rightarrow> EarthSatellite_rec list \<Rightarrow> error + 'a Frame list" where
  "frames at satellites =
     for_each (\<lambda>frame_num.
       case marker_updates at satellites frame_num of
         Inl e \<Rightarrow> Inl e
       | Inr updates \<Rightarrow> Inr \<lparr>frame_data = updates, frame_name = str_nat frame_num\<rparr>)
       [0..<NUM_FRAMES]"

subsection \<open>Export of the frames (lines 160 to 165)\<close>

text \<open>
  A trace of the figure is the surface of the Earth, which the script computes once in
  floating point and which is opaque here, or a \<^verbatim>\<open>go.Scatter3d\<close>. An image is what
  \<^verbatim>\<open>fig.write_image(path)\<close> writes: the path and the data of the figure at that moment.
\<close>

datatype 'a trace = earth | Scatter "'a Scatter3d"

record 'a image =
  image_path :: string
  image_data :: "'a trace list"

text \<open>\<^verbatim>\<open>range(start, stop, step)\<close> for a step that is positive.\<close>

function range_step :: "nat \<Rightarrow> nat \<Rightarrow> nat \<Rightarrow> nat list" where
  "range_step start stop step =
     (if 0 < step \<and> start < stop then start # range_step (start + step) stop step else [])"
  by pat_completeness auto
termination
  by (relation "measure (\<lambda>(start, stop, step). stop - start)") auto

declare range_step.simps [simp del]

text \<open>The format \<^verbatim>\<open>{frame_idx:04d}\<close>: the decimal digits, filled with zeros to four.\<close>

definition format_04d :: "nat \<Rightarrow> string" where
  "format_04d n = replicate (4 - length (str_nat n)) CHR ''0'' @ str_nat n"

text \<open>
  The loop over \<^verbatim>\<open>range(0, NUM_FRAMES, 2)\<close>, from the frame numbers still to come and
  the counter \<open>frame_idx\<close>; the result is the list of the images written, in order.
\<close>

fun export_loop ::
  "'a Scatter3d list \<Rightarrow> 'a Frame list \<Rightarrow> nat list \<Rightarrow> nat \<Rightarrow> error + 'a image list" where
  "export_loop traces fs [] frame_idx = Inr []"
| "export_loop traces fs (frame_num # rest) frame_idx =
     (case getitem fs frame_num of Inl e \<Rightarrow> Inl e | Inr frame \<Rightarrow>
        let written =
          \<lparr>image_path = ''assets/frames/frame_'' @ format_04d frame_idx @ ''.png'',
           image_data = [earth] @ map Scatter traces @ map Scatter (frame_data frame)\<rparr>
        in (case export_loop traces fs rest (frame_idx + 1) of
              Inl e \<Rightarrow> Inl e
            | Inr images \<Rightarrow> Inr (written # images)))"

definition export_frames :: "'a Scatter3d list \<Rightarrow> 'a Frame list \<Rightarrow> error + 'a image list" where
  "export_frames traces fs = export_loop traces fs (range_step 0 NUM_FRAMES 2) 0"

subsection \<open>The whole run\<close>

record 'a run =
  run_satellites :: "EarthSatellite_rec list"
  run_positions :: "'a ndarray list"
  run_names :: "str list"
  run_orbit_traces :: "'a Scatter3d list"
  run_initial_markers :: "'a Scatter3d list"
  run_frames :: "'a Frame list"
  run_exported :: "'a image list"

text \<open>
  The script from top to bottom, as a function of what the constructor accepts, of the
  network and of the propagator: what it has computed when it ends, or the exception that
  ends it.
\<close>

definition script :: "element_check \<Rightarrow> network \<Rightarrow> 'a propagator \<Rightarrow> error + 'a run" where
  "script accepts net at =
     (case load_satellites accepts net STARLINK_URL MAX_SATS of
        Inl e \<Rightarrow> Inl e
      | Inr satellites \<Rightarrow>
      (case orbit_traces at satellites of Inl e \<Rightarrow> Inl e | Inr traces \<Rightarrow>
       (case initial_markers at satellites of Inl e \<Rightarrow> Inl e | Inr markers \<Rightarrow>
        (case frames at satellites of Inl e \<Rightarrow> Inl e | Inr fs \<Rightarrow>
         (case export_frames traces fs of Inl e \<Rightarrow> Inl e | Inr images \<Rightarrow>
            Inr \<lparr>run_satellites = satellites, run_positions = positions at satellites,
                 run_names = names satellites, run_orbit_traces = traces,
                 run_initial_markers = markers, run_frames = fs,
                 run_exported = images\<rparr>)))))"

section \<open>The parser in the words of the specification\<close>

text \<open>
  Section 4.1 of the specification: the lines are read in groups of three (name line,
  element line 1, element line 2) and a trailing incomplete group is dropped; a group is
  accepted as a record only if both element lines have their prefixes; at most \<open>m\<close>
  records are produced, in input order. The specification has no constructor that can
  fail: \<open>spec_parse\<close> is the result of the parser when it returns. A group is
  \<open>refused\<close> when it passes the prefix checks and the constructor raises on it.
\<close>

fun spec_groups :: "'a list \<Rightarrow> ('a \<times> 'a \<times> 'a) list" where
  "spec_groups (a # b # c # rest) = (a, b, c) # spec_groups rest"
| "spec_groups _ = []"

definition spec_accept :: "str \<times> str \<times> str \<Rightarrow> EarthSatellite_rec list" where
  "spec_accept g =
     (case g of (l0, l1, l2) \<Rightarrow>
        if startswith (strip l1) (ascii ''1 '') \<and> startswith (strip l2) (ascii ''2 '')
        then [element_record (strip l1) (strip l2) (strip l0)] else [])"

definition spec_records :: "(str \<times> str \<times> str) list \<Rightarrow> EarthSatellite_rec list" where
  "spec_records gs = concat (map spec_accept gs)"

definition spec_parse :: "str list \<Rightarrow> int \<Rightarrow> EarthSatellite_rec list" where
  "spec_parse lines m = take (nat m) (spec_records (spec_groups lines))"

definition refused :: "element_check \<Rightarrow> str \<times> str \<times> str \<Rightarrow> bool" where
  "refused accepts g =
     (case g of (l0, l1, l2) \<Rightarrow>
        startswith (strip l1) (ascii ''1 '') \<and> startswith (strip l2) (ascii ''2 '') \<and>
        \<not> accepts (strip l1) (strip l2) (strip l0))"


text \<open>
  A network for concrete runs: it answers every request with status 200 and the given
  text.
\<close>

definition serve :: "str \<Rightarrow> network" where
  "serve body url = Inr \<lparr>status_code = 200, response_text = body\<rparr>"

text \<open>
  A constructor for concrete runs: it raises on the element lines that contain the
  character U+0000, which every implementation of the library refuses, and accepts all
  other lines.
\<close>

definition nul_free :: element_check where
  "nul_free line1 line2 name \<longleftrightarrow> 0 \<notin> set line1 \<and> 0 \<notin> set line2"

text \<open>
  Two element lines for concrete runs, in the fixed format of 69 characters (the element
  set of the ISS that the descriptions of the format use as their example).
\<close>

definition tle_line1 :: str where
  "tle_line1 = ascii ''1 25544U 98067A   08264.51782528 -.00002182  00000-0 -11606-4 0  2927''"

definition tle_line2 :: str where
  "tle_line2 = ascii ''2 25544  51.6416 247.4627 0006703 130.5360 325.0288 15.72125391563537''"

section \<open>The frames in the words of the specification\<close>

text \<open>
  What the script expects of the propagator: on the time grid of \<open>NUM_FRAMES\<close> points
  it returns an array of shape (3, \<open>NUM_FRAMES\<close>), the position series of the
  specification.
\<close>

definition shape_3xN :: "'a ndarray \<Rightarrow> bool" where
  "shape_3xN pos \<longleftrightarrow> length pos = 3 \<and> list_all (\<lambda>row. length row = NUM_FRAMES) pos"

text \<open>
  A propagator for concrete runs: every satellite stays at the coordinates
  \<open>(c, c, c)\<close>.
\<close>

definition still :: "'a \<Rightarrow> 'a propagator" where
  "still c sat grid = (case grid of linspace t0 t1 num \<Rightarrow> replicate 3 (replicate num c))"

text \<open>
  The marker the specification asks for in a frame snapshot: the position of one
  satellite at the time-grid index \<open>k\<close>, with its color and its name. The indices that
  building it reads are those of \<open>marker_in_range\<close>.
\<close>

definition spec_marker :: "'a ndarray \<Rightarrow> string \<Rightarrow> str \<Rightarrow> nat \<Rightarrow> 'a Scatter3d" where
  "spec_marker pos color name k =
     \<lparr>sc_x = [pos ! 0 ! k], sc_y = [pos ! 1 ! k], sc_z = [pos ! 2 ! k], sc_mode = ''markers'',
      sc_line = None, sc_marker = Some (8, color), sc_name = name, sc_hoverinfo = None\<rparr>"

definition marker_in_range :: "'a ndarray list \<Rightarrow> str list \<Rightarrow> nat \<Rightarrow> nat \<Rightarrow> bool" where
  "marker_in_range ps ns k i \<longleftrightarrow>
     i < length ps \<and> 2 < length (ps ! i) \<and> k < length (ps ! i ! 0) \<and>
     k < length (ps ! i ! 1) \<and> k < length (ps ! i ! 2) \<and> i < length colors \<and> i < length ns"

section \<open>Properties of the parser\<close>

subsection \<open>The loop computes the parser of the specification\<close>

lemma spec_groups_short: "length xs < 3 \<Longrightarrow> spec_groups xs = []"
  by (cases xs rule: spec_groups.cases) auto

lemma drop_three:
  assumes "i + 2 < length xs"
  shows "drop i xs = xs ! i # xs ! (i + 1) # xs ! (i + 2) # drop (i + 3) xs"
proof -
  have "drop i xs = xs ! i # drop (Suc i) xs"
    using assms by (simp add: Cons_nth_drop_Suc)
  also have "drop (Suc i) xs = xs ! (Suc i) # drop (Suc (Suc i)) xs"
    using assms by (simp add: Cons_nth_drop_Suc)
  also have "drop (Suc (Suc i)) xs = xs ! (Suc (Suc i)) # drop (Suc (Suc (Suc i))) xs"
    using assms by (simp add: Cons_nth_drop_Suc)
  finally show ?thesis
    by (simp add: numeral_3_eq_3)
qed

lemma spec_groups_drop:
  "i + 2 < length xs \<Longrightarrow>
   spec_groups (drop i xs) = (xs ! i, xs ! (i + 1), xs ! (i + 2)) # spec_groups (drop (i + 3) xs)"
  by (simp add: drop_three [of i xs])

lemma spec_groups_drop_end: "\<not> i + 2 < length xs \<Longrightarrow> spec_groups (drop i xs) = []"
  by (rule spec_groups_short) auto

lemma spec_records_Cons: "spec_records (g # gs) = spec_accept g @ spec_records gs"
  by (simp add: spec_records_def)

lemma spec_records_Nil: "spec_records [] = []"
  by (simp add: spec_records_def)

lemma length_spec_accept: "length (spec_accept g) \<le> 1"
  by (simp add: spec_accept_def split: prod.splits)

text \<open>One pass of the body: the constructor raises, or the index moves on by 3.\<close>

lemma loop_body_pass:
  "i + 2 < length lines \<Longrightarrow>
   loop_body accepts lines i satellites =
     (if refused accepts (lines ! i, lines ! (i + 1), lines ! (i + 2)) then Inl ValueError
      else Inr (i + 3, satellites @ spec_accept (lines ! i, lines ! (i + 1), lines ! (i + 2))))"
  by (simp add: loop_body_def getitem_def Let_def spec_accept_def refused_def EarthSatellite_def)

text \<open>One unfolding of the loop, in the three cases there are.\<close>

lemma load_loop_stop:
  "\<not> loop_cond lines m i sats \<Longrightarrow> load_loop accepts lines m i sats = Inr (i, sats)"
  by (simp add: load_loop.simps [of accepts lines m i sats])

lemma load_loop_raise:
  "loop_cond lines m i sats \<Longrightarrow> refused accepts (lines ! i, lines ! (i + 1), lines ! (i + 2)) \<Longrightarrow>
   load_loop accepts lines m i sats = Inl ValueError"
  by (simp add: load_loop.simps [of accepts lines m i sats] loop_body_pass loop_cond_def)

lemma load_loop_pass:
  "loop_cond lines m i sats \<Longrightarrow>
   \<not> refused accepts (lines ! i, lines ! (i + 1), lines ! (i + 2)) \<Longrightarrow>
   load_loop accepts lines m i sats =
     load_loop accepts lines m (i + 3)
       (sats @ spec_accept (lines ! i, lines ! (i + 1), lines ! (i + 2)))"
  by (simp add: load_loop.simps [of accepts lines m i sats] loop_body_pass loop_cond_def)

text \<open>
  Induction over the passes of the loop: a property holds of the loop from every state
  if it holds where the loop stops, where the constructor raises, and where it follows
  from the state after one pass.
\<close>

lemma load_loop_induct [case_names stop raise pass]:
  assumes "\<And>i sats. \<not> loop_cond lines m i sats \<Longrightarrow> P i sats"
    and "\<And>i sats. loop_cond lines m i sats \<Longrightarrow>
          refused accepts (lines ! i, lines ! (i + 1), lines ! (i + 2)) \<Longrightarrow> P i sats"
    and "\<And>i sats. loop_cond lines m i sats \<Longrightarrow>
          \<not> refused accepts (lines ! i, lines ! (i + 1), lines ! (i + 2)) \<Longrightarrow>
          P (i + 3) (sats @ spec_accept (lines ! i, lines ! (i + 1), lines ! (i + 2))) \<Longrightarrow>
          P i sats"
  shows "P i sats"
proof (induction "length lines - i" arbitrary: i sats rule: less_induct)
  case (less i sats)
  show ?case
  proof (cases "loop_cond lines m i sats")
    case False
    then show ?thesis
      by (rule assms(1))
  next
    case True
    then have b: "i + 2 < length lines"
      by (simp add: loop_cond_def)
    show ?thesis
    proof (cases "refused accepts (lines ! i, lines ! (i + 1), lines ! (i + 2))")
      case True
      with \<open>loop_cond lines m i sats\<close> show ?thesis
        by (rule assms(2))
    next
      case False
      from b have "length lines - (i + 3) < length lines - i"
        by simp
      then have "P (i + 3) (sats @ spec_accept (lines ! i, lines ! (i + 1), lines ! (i + 2)))"
        by (rule less.hyps)
      with True False show ?thesis
        by (rule assms(3))
    qed
  qed
qed

lemma load_loop_Inr_closed:
  "load_loop accepts lines m i sats = Inr (i', sats') \<Longrightarrow>
   sats' = sats @ take (nat (m - int (length sats))) (spec_records (spec_groups (drop i lines)))"
proof (induction i sats rule: load_loop_induct [where lines = lines and m = m and accepts = accepts])
  case (stop i sats)
  then have "take (nat (m - int (length sats))) (spec_records (spec_groups (drop i lines))) = []"
    by (auto simp: loop_cond_def spec_groups_drop_end spec_records_Nil)
  with stop show ?case
    by (simp add: load_loop_stop)
next
  case (raise i sats)
  then show ?case
    by (simp add: load_loop_raise)
next
  case (pass i sats)
  define g where "g = (lines ! i, lines ! (i + 1), lines ! (i + 2))"
  from pass(1) have b: "i + 2 < length lines" and m: "int (length sats) < m"
    by (simp_all add: loop_cond_def)
  have gs: "spec_records (spec_groups (drop i lines)) =
      spec_accept g @ spec_records (spec_groups (drop (i + 3) lines))"
    unfolding g_def by (simp only: spec_groups_drop [OF b] spec_records_Cons)
  from pass have "sats' = (sats @ spec_accept g) @
      take (nat (m - int (length (sats @ spec_accept g))))
        (spec_records (spec_groups (drop (i + 3) lines)))"
    by (simp add: load_loop_pass g_def)
  moreover have "take (nat (m - int (length sats))) (spec_records (spec_groups (drop i lines))) =
      spec_accept g @ take (nat (m - int (length (sats @ spec_accept g))))
        (spec_records (spec_groups (drop (i + 3) lines)))"
  proof (cases "spec_accept g")
    case Nil
    then show ?thesis
      by (simp add: gs)
  next
    case (Cons s ss)
    with length_spec_accept [of g] have ss: "ss = []"
      by simp
    from m have "nat (m - int (length sats)) = Suc (nat (m - int (length sats) - 1))"
      by simp
    then show ?thesis
      using Cons ss by (simp add: gs algebra_simps)
  qed
  ultimately show ?case
    by simp
qed

lemma load_loop_Inl:
  "load_loop accepts lines m i sats = Inl e \<Longrightarrow>
   e = ValueError \<and> (\<exists>g\<in>set (spec_groups (drop i lines)). refused accepts g)"
proof (induction i sats rule: load_loop_induct [where lines = lines and m = m and accepts = accepts])
  case (stop i sats)
  then show ?case
    by (simp add: load_loop_stop)
next
  case (raise i sats)
  from raise(1) have b: "i + 2 < length lines"
    by (simp add: loop_cond_def)
  from raise show ?case
    by (simp add: load_loop_raise spec_groups_drop [OF b])
next
  case (pass i sats)
  from pass(1) have b: "i + 2 < length lines"
    by (simp add: loop_cond_def)
  from pass show ?case
    by (simp add: load_loop_pass spec_groups_drop [OF b])
qed


lemma load_loop_Inr_trace:
  "load_loop accepts lines m i sats = Inr (i', sats') \<Longrightarrow>
   \<exists>n. i' = i + 3 * n \<and> sats' = sats @ spec_records (take n (spec_groups (drop i lines))) \<and>
       \<not> loop_cond lines m i' sats' \<and>
       (\<forall>j<n. loop_cond lines m (i + 3 * j)
           (sats @ spec_records (take j (spec_groups (drop i lines)))))"
proof (induction i sats rule: load_loop_induct [where lines = lines and m = m and accepts = accepts])
  case (stop i sats)
  then have "i' = i + 3 * 0 \<and> sats' = sats @ spec_records (take 0 (spec_groups (drop i lines))) \<and>
       \<not> loop_cond lines m i' sats' \<and>
       (\<forall>j<0. loop_cond lines m (i + 3 * j)
           (sats @ spec_records (take j (spec_groups (drop i lines)))))"
    by (simp add: load_loop_stop spec_records_Nil)
  then show ?case
    by (rule exI)
next
  case (raise i sats)
  then show ?case
    by (simp add: load_loop_raise)
next
  case (pass i sats)
  define g where "g = (lines ! i, lines ! (i + 1), lines ! (i + 2))"
  define rest where "rest = spec_groups (drop (i + 3) lines)"
  from pass(1) have b: "i + 2 < length lines"
    by (simp add: loop_cond_def)
  have gs: "spec_groups (drop i lines) = g # rest"
    unfolding g_def rest_def by (simp only: spec_groups_drop [OF b])
  from pass obtain n where
    r: "i' = i + 3 + 3 * n" "sats' = (sats @ spec_accept g) @ spec_records (take n rest)"
    and stop: "\<not> loop_cond lines m i' sats'"
    and before: "\<forall>j<n. loop_cond lines m (i + 3 + 3 * j)
            ((sats @ spec_accept g) @ spec_records (take j rest))"
    unfolding rest_def g_def by (auto simp: load_loop_pass)
  have "i' = i + 3 * Suc n" "sats' = sats @ spec_records (take (Suc n) (g # rest))"
    using r by (simp_all add: spec_records_Cons)
  moreover have "\<forall>j<Suc n. loop_cond lines m (i + 3 * j)
           (sats @ spec_records (take j (g # rest)))"
  proof (intro allI impI)
    fix j assume j: "j < Suc n"
    show "loop_cond lines m (i + 3 * j) (sats @ spec_records (take j (g # rest)))"
    proof (cases j)
      case 0
      with pass(1) show ?thesis
        by (simp add: spec_records_Nil)
    next
      case (Suc k)
      with j before have "loop_cond lines m (i + 3 + 3 * k)
            ((sats @ spec_accept g) @ spec_records (take k rest))"
        by simp
      with Suc show ?thesis
        by (simp add: spec_records_Cons add.assoc)
    qed
  qed
  ultimately show ?case
    using stop unfolding gs by blast
qed


lemma length_spec_groups: "length (spec_groups xs) = length xs div 3"
  by (induction xs rule: spec_groups.induct) simp_all

lemma spec_groups_nth:
  "k < length xs div 3 \<Longrightarrow>
   spec_groups xs ! k = (xs ! (3 * k), xs ! (3 * k + 1), xs ! (3 * k + 2))"
proof (induction xs arbitrary: k rule: spec_groups.induct)
  case (1 a b c rest)
  show ?case
  proof (cases k)
    case 0
    then show ?thesis
      by simp
  next
    case (Suc j)
    with "1.prems" have "j < length rest div 3"
      by simp
    then have "spec_groups rest ! j = (rest ! (3 * j), rest ! (3 * j + 1), rest ! (3 * j + 2))"
      by (rule "1.IH")
    moreover have "3 * k = Suc (Suc (Suc (3 * j)))"
      using Suc by simp
    ultimately show ?thesis
      using Suc by simp
  qed
qed simp_all

lemma spec_groups_positional:
  "spec_groups xs = map (\<lambda>k. (xs ! (3 * k), xs ! (3 * k + 1), xs ! (3 * k + 2))) [0..<length xs div 3]"
  by (rule nth_equalityI) (simp_all add: length_spec_groups spec_groups_nth)

lemma refused_positional:
  "(\<exists>g\<in>set (spec_groups lines). refused accepts g) \<longleftrightarrow>
   (\<exists>k<length lines div 3.
      refused accepts (lines ! (3 * k), lines ! (3 * k + 1), lines ! (3 * k + 2)))"
  by (subst spec_groups_positional) auto

lemma load_satellites_Inr:
  assumes "net url = Inr r" and "raise_for_status r = Inr ()"
    and "load_satellites accepts net url m = Inr sats"
  shows "sats = spec_parse (splitlines (response_text r)) m"
proof -
  from assms obtain i' where
    "load_loop accepts (splitlines (response_text r)) m 0 [] = Inr (i', sats)"
    by (auto simp: load_satellites_def split: sum.splits)
  from load_loop_Inr_closed [OF this] show ?thesis
    by (simp add: spec_parse_def)
qed

lemma load_satellites_Inl:
  assumes "net url = Inr r" and "raise_for_status r = Inr ()"
    and "load_satellites accepts net url m = Inl e"
  shows "e = ValueError \<and>
    (\<exists>g\<in>set (spec_groups (splitlines (response_text r))). refused accepts g)"
proof -
  from assms have "load_loop accepts (splitlines (response_text r)) m 0 [] = Inl e"
    by (auto simp: load_satellites_def split: sum.splits)
  from load_loop_Inl [OF this] show ?thesis
    by simp
qed

lemma load_satellites_returns:
  assumes "net url = Inr r" and "raise_for_status r = Inr ()"
    and "\<forall>g\<in>set (spec_groups (splitlines (response_text r))). \<not> refused accepts g"
  shows "load_satellites accepts net url m = Inr (spec_parse (splitlines (response_text r)) m)"
proof (cases "load_satellites accepts net url m")
  case (Inl e)
  from load_satellites_Inl [OF assms(1,2) this] assms(3) show ?thesis
    by blast
next
  case (Inr sats)
  with load_satellites_Inr [OF assms(1,2) this] show ?thesis
    by simp
qed

lemma load_satellites_raises:
  assumes "net url = Inr r" and "raise_for_status r = Inr ()"
    and "splitlines (response_text r) = l0 # l1 # l2 # rest"
    and "refused accepts (l0, l1, l2)" and "0 < m"
  shows "load_satellites accepts net url m = Inl ValueError"
proof -
  have "loop_cond (l0 # l1 # l2 # rest) m 0 []"
    using \<open>0 < m\<close> by (simp add: loop_cond_def)
  then have "load_loop accepts (l0 # l1 # l2 # rest) m 0 [] = Inl ValueError"
    by (rule load_loop_raise) (simp add: assms(4))
  with assms(1-3) show ?thesis
    by (simp add: load_satellites_def)
qed

lemma spec_accept_cases:
  "s \<in> set (spec_accept (l0, l1, l2)) \<Longrightarrow>
   s = element_record (strip l1) (strip l2) (strip l0) \<and>
   startswith (strip l1) (ascii ''1 '') \<and> startswith (strip l2) (ascii ''2 '')"
  by (simp add: spec_accept_def split: if_splits)

lemma spec_parse_member:
  assumes "s \<in> set (spec_parse lines m)"
  shows "\<exists>k<length lines div 3.
           s = element_record (strip (lines ! (3 * k + 1))) (strip (lines ! (3 * k + 2)))
                 (strip (lines ! (3 * k))) \<and>
           startswith (strip (lines ! (3 * k + 1))) (ascii ''1 '') \<and>
           startswith (strip (lines ! (3 * k + 2))) (ascii ''2 '')"
proof -
  from assms have "s \<in> set (spec_records (spec_groups lines))"
    unfolding spec_parse_def by (rule in_set_takeD)
  then obtain g where g: "g \<in> set (spec_groups lines)" and s: "s \<in> set (spec_accept g)"
    by (auto simp: spec_records_def)
  from g obtain k where k: "k < length (spec_groups lines)" and gk: "spec_groups lines ! k = g"
    by (auto simp: in_set_conv_nth)
  from k have k3: "k < length lines div 3"
    by (simp add: length_spec_groups)
  with gk have "g = (lines ! (3 * k), lines ! (3 * k + 1), lines ! (3 * k + 2))"
    by (simp add: spec_groups_nth)
  with s k3 show ?thesis
    using spec_accept_cases by blast
qed

lemma length_spec_parse: "length (spec_parse lines m) \<le> nat m"
  by (simp add: spec_parse_def)

subsection \<open>Claims about the parser\<close>

text \<open>
  C1. Whatever text a successful request delivers and whatever \<open>max_sats\<close> is, when
  \<^verbatim>\<open>load_satellites\<close> returns it returns at most \<open>max_sats\<close> records (none when
  \<open>max_sats\<close> is not positive). Every record it returns has an element line 1 that
  starts with \<open>1 \<close> and an element line 2 that starts with \<open>2 \<close>, and it is the record
  of a group of three lines (lines \<open>3k\<close>, \<open>3k + 1\<close>, \<open>3k + 2\<close>) whose trimmed element
  lines pass both prefix checks: no group that fails a check is returned. When the
  function does not return, it has raised and returned no record at all; it does return
  when the constructor refuses none of the groups.
\<close>

theorem load_satellites_max_and_prefix:
  assumes "net url = Inr r" and "raise_for_status r = Inr ()"
    and "lines = splitlines (response_text r)"
  shows "(\<forall>sats. load_satellites accepts net url m = Inr sats \<longrightarrow>
      length sats \<le> nat m \<and>
      (\<forall>s\<in>set sats.
         startswith (sat_line1 s) (ascii ''1 '') \<and> startswith (sat_line2 s) (ascii ''2 '') \<and>
         (\<exists>k<length lines div 3.
            s = element_record (strip (lines ! (3 * k + 1))) (strip (lines ! (3 * k + 2)))
                  (strip (lines ! (3 * k))) \<and>
            startswith (strip (lines ! (3 * k + 1))) (ascii ''1 '') \<and>
            startswith (strip (lines ! (3 * k + 2))) (ascii ''2 '')))) \<and>
    ((\<forall>k<length lines div 3.
        \<not> refused accepts (lines ! (3 * k), lines ! (3 * k + 1), lines ! (3 * k + 2))) \<longrightarrow>
     (\<exists>sats. load_satellites accepts net url m = Inr sats))"
proof -
  have a: "length sats \<le> nat m \<and>
      (\<forall>s\<in>set sats.
         startswith (sat_line1 s) (ascii ''1 '') \<and> startswith (sat_line2 s) (ascii ''2 '') \<and>
         (\<exists>k<length lines div 3.
            s = element_record (strip (lines ! (3 * k + 1))) (strip (lines ! (3 * k + 2)))
                  (strip (lines ! (3 * k))) \<and>
            startswith (strip (lines ! (3 * k + 1))) (ascii ''1 '') \<and>
            startswith (strip (lines ! (3 * k + 2))) (ascii ''2 '')))"
    if "load_satellites accepts net url m = Inr sats" for sats
  proof -
    from load_satellites_Inr [OF assms(1,2) that] assms(3)
    have sats: "sats = spec_parse lines m"
      by simp
    have "startswith (sat_line1 s) (ascii ''1 '') \<and>
         startswith (sat_line2 s) (ascii ''2 '') \<and>
         (\<exists>k<length lines div 3.
            s = element_record (strip (lines ! (3 * k + 1))) (strip (lines ! (3 * k + 2)))
                  (strip (lines ! (3 * k))) \<and>
            startswith (strip (lines ! (3 * k + 1))) (ascii ''1 '') \<and>
            startswith (strip (lines ! (3 * k + 2))) (ascii ''2 ''))"
      if "s \<in> set sats" for s
    proof -
      from that sats obtain k where k: "k < length lines div 3"
        "s = element_record (strip (lines ! (3 * k + 1))) (strip (lines ! (3 * k + 2)))
                   (strip (lines ! (3 * k)))"
        "startswith (strip (lines ! (3 * k + 1))) (ascii ''1 '')"
        "startswith (strip (lines ! (3 * k + 2))) (ascii ''2 '')"
        using spec_parse_member by blast
      then have "startswith (sat_line1 s) (ascii ''1 '')" "startswith (sat_line2 s) (ascii ''2 '')"
        by (simp_all add: element_record_def)
      with k show ?thesis
        by blast
    qed
    with sats show ?thesis
      by (simp add: length_spec_parse)
  qed
  have b: "\<exists>sats. load_satellites accepts net url m = Inr sats"
    if "\<forall>k<length lines div 3.
        \<not> refused accepts (lines ! (3 * k), lines ! (3 * k + 1), lines ! (3 * k + 2))"
  proof -
    from that have "\<forall>g\<in>set (spec_groups lines). \<not> refused accepts g"
      using refused_positional [of lines accepts] by blast
    with assms show ?thesis
      by (simp add: load_satellites_returns)
  qed
  from a b show ?thesis
    by blast
qed

text \<open>The unfoldings that evaluate the parser on a concrete text.\<close>

lemmas eval_text = ascii_def splitlines_def is_linebreak_def
lemmas eval_parse = spec_parse_def spec_records_def spec_accept_def strip_def isspace_def
  startswith_def ascii_def
lemmas eval_refused = refused_def nul_free_def strip_def isspace_def startswith_def ascii_def

theorem load_satellites_max_and_prefix_witness:
  "load_satellites nul_free
     (serve (ascii ''A'' @ [10] @ ascii ''1 a'' @ [13, 10] @ ascii ''2 b'' @ [10] @
        ascii ''B'' @ [10] @ ascii ''X'' @ [10] @ ascii ''2 c'' @ [10] @
        ascii ''C'' @ [10] @ ascii ''1 d'' @ [10] @ ascii ''2 e'')) [] 1
   = Inr [element_record (ascii ''1 a'') (ascii ''2 b'') (ascii ''A'')] \<and>
   startswith (sat_line1 (element_record (ascii ''1 a'') (ascii ''2 b'') (ascii ''A'')))
     (ascii ''1 '')"
proof -
  define blob where "blob = ascii ''A'' @ [10] @ ascii ''1 a'' @ [13, 10] @ ascii ''2 b'' @ [10] @
        ascii ''B'' @ [10] @ ascii ''X'' @ [10] @ ascii ''2 c'' @ [10] @
        ascii ''C'' @ [10] @ ascii ''1 d'' @ [10] @ ascii ''2 e''"
  define r where "r = \<lparr>status_code = 200, response_text = blob\<rparr>"
  define lines where "lines = [ascii ''A'', ascii ''1 a'', ascii ''2 b'', ascii ''B'',
    ascii ''X'', ascii ''2 c'', ascii ''C'', ascii ''1 d'', ascii ''2 e'']"
  have h1: "serve blob [] = Inr r"
    by (simp add: serve_def r_def)
  have h2: "raise_for_status r = Inr ()"
    by (simp add: raise_for_status_def r_def)
  have h3: "lines = splitlines (response_text r)"
    by (simp add: r_def blob_def lines_def eval_text)
  have "\<forall>g\<in>set (spec_groups lines). \<not> refused nul_free g"
    by (simp add: lines_def eval_refused)
  then have ok: "\<forall>k<length lines div 3.
      \<not> refused nul_free (lines ! (3 * k), lines ! (3 * k + 1), lines ! (3 * k + 2))"
    using refused_positional [of lines nul_free] by blast
  from load_satellites_max_and_prefix [of "serve blob" "[]" r lines nul_free 1, OF h1 h2 h3] ok
  obtain sats where s: "load_satellites nul_free (serve blob) [] 1 = Inr sats"
    and p: "\<forall>s\<in>set sats. startswith (sat_line1 s) (ascii ''1 '')"
    by blast
  from load_satellites_Inr [OF h1 h2 s] h3 have "sats = spec_parse lines 1"
    by simp
  also have "\<dots> = [element_record (ascii ''1 a'') (ascii ''2 b'') (ascii ''A'')]"
    by (simp add: lines_def eval_parse)
  finally have e: "sats = [element_record (ascii ''1 a'') (ascii ''2 b'') (ascii ''A'')]" .
  with p have "startswith (sat_line1 (element_record (ascii ''1 a'') (ascii ''2 b'') (ascii ''A'')))
     (ascii ''1 '')"
    by auto
  with s e show ?thesis
    unfolding blob_def by simp
qed

text \<open>
  C2, as amended. The text is nine lines: a group whose trimmed element lines start with
  \<open>1 \<close> and \<open>2 \<close> and are accepted by the constructor, a group whose trimmed element
  line 1 does not start with \<open>1 \<close>, and another group whose trimmed element lines start
  with \<open>1 \<close> and \<open>2 \<close> and are accepted by the constructor. With \<open>max_sats\<close> at
  least 2, \<^verbatim>\<open>load_satellites\<close> returns without an exception exactly the records of
  the first and of the third group, in this order.
\<close>

theorem load_satellites_skips_middle:
  assumes "net url = Inr r" and "raise_for_status r = Inr ()"
    and "splitlines (response_text r) = [n1, a1, b1, n2, a2, b2, n3, a3, b3]"
    and "startswith (strip a1) (ascii ''1 '')" and "startswith (strip b1) (ascii ''2 '')"
    and "accepts (strip a1) (strip b1) (strip n1)"
    and "\<not> startswith (strip a2) (ascii ''1 '')"
    and "startswith (strip a3) (ascii ''1 '')" and "startswith (strip b3) (ascii ''2 '')"
    and "accepts (strip a3) (strip b3) (strip n3)"
    and "2 \<le> m"
  shows "load_satellites accepts net url m =
           Inr [element_record (strip a1) (strip b1) (strip n1),
                element_record (strip a3) (strip b3) (strip n3)]"
proof -
  from \<open>2 \<le> m\<close> obtain k where "nat m = Suc (Suc k)"
    by (cases "nat m"; cases "nat m - 1") auto
  then have p: "spec_parse [n1, a1, b1, n2, a2, b2, n3, a3, b3] m =
      [element_record (strip a1) (strip b1) (strip n1),
       element_record (strip a3) (strip b3) (strip n3)]"
    using assms(4,5,7,8,9) by (simp add: spec_parse_def spec_records_def spec_accept_def)
  have "\<forall>g\<in>set (spec_groups [n1, a1, b1, n2, a2, b2, n3, a3, b3]). \<not> refused accepts g"
    using assms(6,7,10) by (simp add: refused_def)
  with assms(1-3) p show ?thesis
    by (simp add: load_satellites_returns)
qed

theorem load_satellites_skips_middle_witness:
  "load_satellites nul_free
     (serve (ascii ''A'' @ [10] @ ascii ''1 a'' @ [10] @ ascii ''2 b'' @ [10] @
        ascii ''B'' @ [10] @ ascii ''X garbage'' @ [10] @ ascii ''2 c'' @ [10] @
        ascii ''C'' @ [10] @ ascii ''1 d'' @ [10] @ ascii ''2 e'' @ [10])) [] 2
   = Inr [element_record (ascii ''1 a'') (ascii ''2 b'') (ascii ''A''),
          element_record (ascii ''1 d'') (ascii ''2 e'') (ascii ''C'')]"
proof -
  define blob where "blob = ascii ''A'' @ [10] @ ascii ''1 a'' @ [10] @ ascii ''2 b'' @ [10] @
        ascii ''B'' @ [10] @ ascii ''X garbage'' @ [10] @ ascii ''2 c'' @ [10] @
        ascii ''C'' @ [10] @ ascii ''1 d'' @ [10] @ ascii ''2 e'' @ [10]"
  define r where "r = \<lparr>status_code = 200, response_text = blob\<rparr>"
  have h1: "serve blob [] = Inr r"
    by (simp add: serve_def r_def)
  have h2: "raise_for_status r = Inr ()"
    by (simp add: raise_for_status_def r_def)
  have h3: "splitlines (response_text r) =
      [ascii ''A'', ascii ''1 a'', ascii ''2 b'', ascii ''B'', ascii ''X garbage'', ascii ''2 c'',
       ascii ''C'', ascii ''1 d'', ascii ''2 e'']"
    by (simp add: r_def blob_def eval_text)
  have s: "strip (ascii ''A'') = ascii ''A''" "strip (ascii ''1 a'') = ascii ''1 a''"
    "strip (ascii ''2 b'') = ascii ''2 b''" "strip (ascii ''C'') = ascii ''C''"
    "strip (ascii ''1 d'') = ascii ''1 d''" "strip (ascii ''2 e'') = ascii ''2 e''"
    by (simp_all add: eval_parse)
  have h4: "startswith (strip (ascii ''1 a'')) (ascii ''1 '')"
    and h5: "startswith (strip (ascii ''2 b'')) (ascii ''2 '')"
    and h6: "nul_free (strip (ascii ''1 a'')) (strip (ascii ''2 b'')) (strip (ascii ''A''))"
    and h7: "\<not> startswith (strip (ascii ''X garbage'')) (ascii ''1 '')"
    and h8: "startswith (strip (ascii ''1 d'')) (ascii ''1 '')"
    and h9: "startswith (strip (ascii ''2 e'')) (ascii ''2 '')"
    and h10: "nul_free (strip (ascii ''1 d'')) (strip (ascii ''2 e'')) (strip (ascii ''C''))"
    by (simp_all add: eval_refused)
  have h11: "(2::int) \<le> 2"
    by simp
  from load_satellites_skips_middle [of "serve blob" "[]" r _ _ _ _ _ _ _ _ _ nul_free 2,
      OF h1 h2 h3 h4 h5 h6 h7 h8 h9 h10 h11]
  show ?thesis
    unfolding s blob_def .
qed

text \<open>
  An element line 1 with the character U+0000 at its end: it is trimmed to itself, it
  starts with \<open>1 \<close>, and the constructor raises on it.
\<close>

lemma nul_line:
  "strip (tle_line1 @ [0]) = tle_line1 @ [0]"
  "startswith (tle_line1 @ [0]) (ascii ''1 '')"
  "0 \<in> set (tle_line1 @ [0])"
  by (simp_all add: tle_line1_def strip_def isspace_def ascii_def startswith_def)

lemma strip_tle:
  "strip tle_line1 = tle_line1" "strip tle_line2 = tle_line2"
  by (simp_all add: tle_line1_def tle_line2_def strip_def isspace_def ascii_def)

lemma starts_tle:
  "startswith tle_line1 (ascii ''1 '')" "startswith tle_line2 (ascii ''2 '')"
  by (simp_all add: tle_line1_def tle_line2_def startswith_def ascii_def)

lemma refused_nul_line: "refused nul_free (name, tle_line1 @ [0], tle_line2)"
  by (simp add: refused_def nul_free_def nul_line strip_tle starts_tle)

text \<open>
  C2 as it is written: the element lines of the first group start with \<open>1 \<close> and
  \<open>2 \<close>, before and after trimming, and its element line 1 ends with the character
  U+0000; the middle group has the element line 1 \<open>X garbage\<close>; the third group is an
  element set in the fixed format. The first group passes the prefix checks, the
  constructor raises \<^verbatim>\<open>ValueError\<close> on it, and no record is returned.
\<close>

theorem load_satellites_skips_middle_counterexample:
  "splitlines (ascii ''A'' @ [10] @ tle_line1 @ [0] @ [10] @ tle_line2 @ [10] @
     ascii ''B'' @ [10] @ ascii ''X garbage'' @ [10] @ tle_line2 @ [10] @
     ascii ''C'' @ [10] @ tle_line1 @ [10] @ tle_line2 @ [10]) =
   [ascii ''A'', tle_line1 @ [0], tle_line2, ascii ''B'', ascii ''X garbage'', tle_line2,
    ascii ''C'', tle_line1, tle_line2] \<and>
   startswith (strip (tle_line1 @ [0])) (ascii ''1 '') \<and>
   startswith (strip tle_line2) (ascii ''2 '') \<and>
   \<not> startswith (strip (ascii ''X garbage'')) (ascii ''1 '') \<and>
   startswith (strip tle_line1) (ascii ''1 '') \<and>
   load_satellites nul_free
     (serve (ascii ''A'' @ [10] @ tle_line1 @ [0] @ [10] @ tle_line2 @ [10] @
        ascii ''B'' @ [10] @ ascii ''X garbage'' @ [10] @ tle_line2 @ [10] @
        ascii ''C'' @ [10] @ tle_line1 @ [10] @ tle_line2 @ [10])) [] 30
   = Inl ValueError"
proof -
  define blob where "blob = ascii ''A'' @ [10] @ tle_line1 @ [0] @ [10] @ tle_line2 @ [10] @
     ascii ''B'' @ [10] @ ascii ''X garbage'' @ [10] @ tle_line2 @ [10] @
     ascii ''C'' @ [10] @ tle_line1 @ [10] @ tle_line2 @ [10]"
  define r where "r = \<lparr>status_code = 200, response_text = blob\<rparr>"
  have h1: "serve blob [] = Inr r"
    by (simp add: serve_def r_def)
  have h2: "raise_for_status r = Inr ()"
    by (simp add: raise_for_status_def r_def)
  have h3: "splitlines blob =
     [ascii ''A'', tle_line1 @ [0], tle_line2, ascii ''B'', ascii ''X garbage'', tle_line2,
      ascii ''C'', tle_line1, tle_line2]"
    by (simp add: blob_def tle_line1_def tle_line2_def eval_text)
  then have h3': "splitlines (response_text r) = ascii ''A'' # (tle_line1 @ [0]) # tle_line2 #
      [ascii ''B'', ascii ''X garbage'', tle_line2, ascii ''C'', tle_line1, tle_line2]"
    by (simp add: r_def)
  have "load_satellites nul_free (serve blob) [] 30 = Inl ValueError"
    using h1 h2 h3' refused_nul_line by (rule load_satellites_raises) simp
  moreover have "\<not> startswith (strip (ascii ''X garbage'')) (ascii ''1 '')"
    by (simp add: eval_parse)
  ultimately show ?thesis
    using h3 unfolding blob_def by (simp add: nul_line strip_tle starts_tle)
qed

text \<open>
  C4, as amended. When the text a successful request delivers is exactly three lines, the
  second of which starts with \<open>1 \<close> and the third with \<open>2 \<close> once they are trimmed,
  the constructor accepts the trimmed lines and \<open>max_sats\<close> is at least 1,
  \<^verbatim>\<open>load_satellites\<close> returns exactly one record; its name, element line 1 and element
  line 2 are the three lines, each trimmed.
\<close>

theorem load_satellites_one_group:
  assumes "net url = Inr r" and "raise_for_status r = Inr ()"
    and "splitlines (response_text r) = [l0, l1, l2]"
    and "startswith (strip l1) (ascii ''1 '')" and "startswith (strip l2) (ascii ''2 '')"
    and "accepts (strip l1) (strip l2) (strip l0)"
    and "1 \<le> m"
  shows "\<exists>s. load_satellites accepts net url m = Inr [s] \<and>
           sat_name s = strip l0 \<and> sat_line1 s = strip l1 \<and> sat_line2 s = strip l2"
proof -
  from \<open>1 \<le> m\<close> obtain k where "nat m = Suc k"
    by (cases "nat m") auto
  then have p: "spec_parse [l0, l1, l2] m = [element_record (strip l1) (strip l2) (strip l0)]"
    using assms(4,5) by (simp add: spec_parse_def spec_records_def spec_accept_def)
  have "\<forall>g\<in>set (spec_groups [l0, l1, l2]). \<not> refused accepts g"
    using assms(6) by (simp add: refused_def)
  with assms(1-3) p
  have "load_satellites accepts net url m = Inr [element_record (strip l1) (strip l2) (strip l0)]"
    by (simp add: load_satellites_returns)
  then show ?thesis
    by (simp add: element_record_def)
qed

theorem load_satellites_one_group_witness:
  "load_satellites nul_free
     (serve (ascii ''ISS '' @ [13, 10] @ ascii '' 1 a'' @ [13, 10] @ ascii ''2 b'' @ [13, 10]))
     [] 30 = Inr [element_record (ascii ''1 a'') (ascii ''2 b'') (ascii ''ISS'')]"
proof -
  define blob where
    "blob = ascii ''ISS '' @ [13, 10] @ ascii '' 1 a'' @ [13, 10] @ ascii ''2 b'' @ [13, 10]"
  define r where "r = \<lparr>status_code = 200, response_text = blob\<rparr>"
  have h1: "serve blob [] = Inr r"
    by (simp add: serve_def r_def)
  have h2: "raise_for_status r = Inr ()"
    by (simp add: raise_for_status_def r_def)
  have h3: "splitlines (response_text r) = [ascii ''ISS '', ascii '' 1 a'', ascii ''2 b'']"
    by (simp add: r_def blob_def eval_text)
  have h4: "startswith (strip (ascii '' 1 a'')) (ascii ''1 '')"
    and h5: "startswith (strip (ascii ''2 b'')) (ascii ''2 '')"
    and h6: "nul_free (strip (ascii '' 1 a'')) (strip (ascii ''2 b'')) (strip (ascii ''ISS ''))"
    by (simp_all add: eval_refused)
  have h7: "(1::int) \<le> 30"
    by simp
  have s: "strip (ascii ''ISS '') = ascii ''ISS''" "strip (ascii '' 1 a'') = ascii ''1 a''"
    "strip (ascii ''2 b'') = ascii ''2 b''"
    by (simp_all add: eval_parse)
  from load_satellites_one_group [of "serve blob" "[]" r _ _ _ nul_free 30, OF h1 h2 h3 h4 h5 h6 h7]
  obtain s where "load_satellites nul_free (serve blob) [] 30 = Inr [s]"
    "sat_name s = ascii ''ISS''" "sat_line1 s = ascii ''1 a''" "sat_line2 s = ascii ''2 b''"
    unfolding s by auto
  then show ?thesis
    unfolding blob_def by (simp add: element_record_def)
qed

text \<open>
  C4 as it is written: the text is a name line, a line that starts with \<open>1 \<close> and a line
  that starts with \<open>2 \<close> (before and after trimming), and the element line 1 ends with
  the character U+0000. The group passes the prefix checks, the constructor raises
  \<^verbatim>\<open>ValueError\<close>, and no record is returned.
\<close>

theorem load_satellites_one_group_counterexample:
  "splitlines (ascii ''SAT'' @ [10] @ tle_line1 @ [0] @ [10] @ tle_line2 @ [10]) =
     [ascii ''SAT'', tle_line1 @ [0], tle_line2] \<and>
   startswith (tle_line1 @ [0]) (ascii ''1 '') \<and> startswith tle_line2 (ascii ''2 '') \<and>
   startswith (strip (tle_line1 @ [0])) (ascii ''1 '') \<and>
   startswith (strip tle_line2) (ascii ''2 '') \<and>
   load_satellites nul_free
     (serve (ascii ''SAT'' @ [10] @ tle_line1 @ [0] @ [10] @ tle_line2 @ [10])) [] 1
     = Inl ValueError"
proof -
  define blob where "blob = ascii ''SAT'' @ [10] @ tle_line1 @ [0] @ [10] @ tle_line2 @ [10]"
  define r where "r = \<lparr>status_code = 200, response_text = blob\<rparr>"
  have h1: "serve blob [] = Inr r"
    by (simp add: serve_def r_def)
  have h2: "raise_for_status r = Inr ()"
    by (simp add: raise_for_status_def r_def)
  have h3: "splitlines blob = [ascii ''SAT'', tle_line1 @ [0], tle_line2]"
    by (simp add: blob_def tle_line1_def tle_line2_def eval_text)
  then have h3': "splitlines (response_text r) = ascii ''SAT'' # (tle_line1 @ [0]) # tle_line2 # []"
    by (simp add: r_def)
  have "load_satellites nul_free (serve blob) [] 1 = Inl ValueError"
    using h1 h2 h3' refused_nul_line by (rule load_satellites_raises) simp
  with h3 show ?thesis
    unfolding blob_def by (simp add: nul_line strip_tle starts_tle)
qed


lemma load_loop_from_start:
  assumes "load_loop accepts lines m 0 [] = Inr (i', sats)"
  shows "\<exists>n. i' = 3 * n \<and> sats = spec_records (take n (spec_groups lines)) \<and>
       (m \<le> int (length sats) \<or> length lines < 3 * n + 3) \<and>
       (\<forall>j<n. int (length (spec_records (take j (spec_groups lines)))) < m \<and>
          3 * j + 3 \<le> length lines)"
proof -
  from load_loop_Inr_trace [OF assms] obtain n where
    n: "i' = 3 * n" "sats = spec_records (take n (spec_groups lines))"
    "\<not> loop_cond lines m i' sats"
    "\<forall>j<n. loop_cond lines m (3 * j) (spec_records (take j (spec_groups lines)))"
    by auto
  from n(1,3) have "m \<le> int (length sats) \<or> length lines < 3 * n + 3"
    by (auto simp: loop_cond_def)
  moreover from n(4) have "\<forall>j<n. int (length (spec_records (take j (spec_groups lines)))) < m \<and>
          3 * j + 3 \<le> length lines"
    by (auto simp: loop_cond_def)
  ultimately show ?thesis
    using n(1,2) by blast
qed




lemma not_both_prefixes:
  "startswith s (ascii ''1 '') \<Longrightarrow> \<not> startswith s (ascii ''2 '')"
  by (auto simp: startswith_def ascii_def prefix_def)

lemma strip_keeps_head:
  assumes "\<not> isspace c"
  shows "\<exists>t. strip (c # cs) = c # t"
proof -
  from assms have "dropWhile isspace (rev cs @ [c]) = dropWhile isspace (rev cs) @ [c]"
    by (simp add: dropWhile_append3)
  with assms show ?thesis
    by (simp add: strip_def)
qed

lemma line1_is_no_line2:
  assumes "startswith l (ascii ''1 '') \<or> startswith (strip l) (ascii ''1 '')"
  shows "\<not> startswith (strip l) (ascii ''2 '')"
proof -
  have "\<not> startswith (strip l) (ascii ''2 '')" if "startswith l (ascii ''1 '')"
  proof -
    from that obtain cs where "l = 49 # cs"
      by (auto simp: startswith_def ascii_def prefix_def)
    moreover have "\<not> isspace 49"
      by (simp add: isspace_def)
    ultimately obtain t where "strip l = 49 # t"
      using strip_keeps_head by blast
    then show ?thesis
      by (simp add: startswith_def ascii_def)
  qed
  with assms not_both_prefixes show ?thesis
    by blast
qed

lemma shifted_groups_fail:
  assumes d: "3 dvd length ls"
    and ok: "\<forall>k<length ls div 3. startswith (ls ! (3 * k + 1)) (ascii ''1 '') \<or>
        startswith (strip (ls ! (3 * k + 1))) (ascii ''1 '')"
    and g: "g \<in> set (spec_groups (x # ls))"
  shows "spec_accept g = [] \<and> \<not> refused accepts g"
proof -
  from g obtain k where k: "k < length (x # ls) div 3"
    and g: "g = ((x # ls) ! (3 * k), (x # ls) ! (3 * k + 1), (x # ls) ! (3 * k + 2))"
    by (auto simp: spec_groups_positional)
  from d obtain N where N: "length ls = 3 * N"
    by (auto simp: dvd_def)
  with k have "k < N"
    by simp
  with ok N have "startswith (ls ! (3 * k + 1)) (ascii ''1 '') \<or>
      startswith (strip (ls ! (3 * k + 1))) (ascii ''1 '')"
    by simp
  then have "\<not> startswith (strip (ls ! (3 * k + 1))) (ascii ''2 '')"
    by (rule line1_is_no_line2)
  moreover have "(x # ls) ! (3 * k + 2) = ls ! (3 * k + 1)"
    by simp
  ultimately show ?thesis
    unfolding g by (simp add: spec_accept_def refused_def)
qed

lemma shifted_groups_rejected:
  assumes "net url = Inr r" and "raise_for_status r = Inr ()"
    and "splitlines (response_text r) = x # ls"
    and "3 dvd length ls"
    and "\<forall>k<length ls div 3. startswith (ls ! (3 * k + 1)) (ascii ''1 '') \<or>
        startswith (strip (ls ! (3 * k + 1))) (ascii ''1 '')"
  shows "load_satellites accepts net url m = Inr []"
proof -
  from shifted_groups_fail [OF assms(4,5)]
  have f: "\<forall>g\<in>set (spec_groups (x # ls)). spec_accept g = [] \<and> \<not> refused accepts g"
    by blast
  then have "spec_records (spec_groups (x # ls)) = []"
    by (simp add: spec_records_def)
  then have "spec_parse (x # ls) m = []"
    by (simp add: spec_parse_def)
  with load_satellites_returns [where net = net and url = url and accepts = accepts and m = m, OF assms(1,2)] f assms(3) show ?thesis
    by simp
qed

lemma loop_body_advances:
  "loop_body accepts lines i sats = Inr (i', sats') \<Longrightarrow> i' = i + 3"
  by (auto simp: loop_body_def getitem_def Let_def split: if_splits sum.splits)

text \<open>
  C10. The groups are positional: a result is, up to \<open>max_sats\<close> records, the records
  of the groups made of the lines \<open>3k\<close>, \<open>3k + 1\<close>, \<open>3k + 2\<close> that pass the checks,
  in the order of \<open>k\<close>. The loop ends for every list of lines: with a scan index
  \<open>3n\<close> inside the list, or with the exception of the constructor. A pass of the body
  that is completed moves the index by exactly 3, whether it appends a record or not,
  and a pass is completed unless the constructor raises. So there is no
  resynchronisation: with one line in front of a run of groups whose element lines 1
  start with \<open>1 \<close> (as they stand or once trimmed), every group read is shifted by one
  line, its element line 2 is an element line 1 of the run, no group reaches the
  constructor, and the empty list is returned.
\<close>

theorem load_satellites_positional:
  assumes "net url = Inr r" and "raise_for_status r = Inr ()"
    and "lines = splitlines (response_text r)"
  shows "(\<forall>sats. load_satellites accepts net url m = Inr sats \<longrightarrow>
      sats = take (nat m) (concat (map
        (\<lambda>k. if startswith (strip (lines ! (3 * k + 1))) (ascii ''1 '') \<and>
                 startswith (strip (lines ! (3 * k + 2))) (ascii ''2 '')
              then [element_record (strip (lines ! (3 * k + 1))) (strip (lines ! (3 * k + 2)))
                      (strip (lines ! (3 * k)))]
              else [])
        [0..<length lines div 3]))) \<and>
    ((\<exists>n sats. load_loop accepts lines m 0 [] = Inr (3 * n, sats) \<and> 3 * n \<le> length lines) \<or>
     load_loop accepts lines m 0 [] = Inl ValueError) \<and>
    (\<forall>i sats. i + 2 < length lines \<longrightarrow>
       loop_body accepts lines i sats = Inl ValueError \<or>
       (\<exists>sats'. loop_body accepts lines i sats = Inr (i + 3, sats'))) \<and>
    (\<forall>i sats i' sats'. loop_body accepts lines i sats = Inr (i', sats') \<longrightarrow> i' = i + 3) \<and>
    (\<forall>x ls. lines = x # ls \<and> 3 dvd length ls \<and>
       (\<forall>k<length ls div 3. startswith (ls ! (3 * k + 1)) (ascii ''1 '') \<or>
          startswith (strip (ls ! (3 * k + 1))) (ascii ''1 '')) \<longrightarrow>
       load_satellites accepts net url m = Inr [])"
proof -
  have p: "spec_parse lines m = take (nat m) (concat (map
        (\<lambda>k. if startswith (strip (lines ! (3 * k + 1))) (ascii ''1 '') \<and>
                 startswith (strip (lines ! (3 * k + 2))) (ascii ''2 '')
              then [element_record (strip (lines ! (3 * k + 1))) (strip (lines ! (3 * k + 2)))
                      (strip (lines ! (3 * k)))]
              else [])
        [0..<length lines div 3]))"
    by (simp only: spec_parse_def spec_records_def spec_groups_positional [of lines]
        spec_accept_def map_map comp_def prod.case)
  have one: "\<forall>sats. load_satellites accepts net url m = Inr sats \<longrightarrow>
      sats = take (nat m) (concat (map
        (\<lambda>k. if startswith (strip (lines ! (3 * k + 1))) (ascii ''1 '') \<and>
                 startswith (strip (lines ! (3 * k + 2))) (ascii ''2 '')
              then [element_record (strip (lines ! (3 * k + 1))) (strip (lines ! (3 * k + 2)))
                      (strip (lines ! (3 * k)))]
              else [])
        [0..<length lines div 3]))"
    using load_satellites_Inr [where net = net and url = url and accepts = accepts and m = m,
        OF assms(1,2)] p assms(3)
    by simp
  have two: "(\<exists>n sats. load_loop accepts lines m 0 [] = Inr (3 * n, sats) \<and>
      3 * n \<le> length lines) \<or> load_loop accepts lines m 0 [] = Inl ValueError"
  proof (cases "load_loop accepts lines m 0 []")
    case (Inl e)
    from load_loop_Inl [OF this] Inl show ?thesis
      by simp
  next
    case (Inr p)
    obtain i' sats where p: "p = (i', sats)"
      by (cases p)
    from load_loop_from_start [OF Inr [unfolded p]] obtain n where
      n: "i' = 3 * n"
      "\<forall>j<n. int (length (spec_records (take j (spec_groups lines)))) < m \<and>
         3 * j + 3 \<le> length lines"
      by blast
    have "3 * n \<le> length lines"
    proof (cases n)
      case 0
      then show ?thesis by simp
    next
      case (Suc j)
      with n(2) have "3 * j + 3 \<le> length lines"
        by simp
      with Suc show ?thesis
        by simp
    qed
    with Inr p n(1) show ?thesis
      by blast
  qed
  have three: "\<forall>i sats. i + 2 < length lines \<longrightarrow>
       loop_body accepts lines i sats = Inl ValueError \<or>
       (\<exists>sats'. loop_body accepts lines i sats = Inr (i + 3, sats'))"
    by (simp add: loop_body_pass)
  have four: "\<forall>i sats i' sats'. loop_body accepts lines i sats = Inr (i', sats') \<longrightarrow> i' = i + 3"
    using loop_body_advances by blast
  have five: "\<forall>x ls. lines = x # ls \<and> 3 dvd length ls \<and>
       (\<forall>k<length ls div 3. startswith (ls ! (3 * k + 1)) (ascii ''1 '') \<or>
          startswith (strip (ls ! (3 * k + 1))) (ascii ''1 '')) \<longrightarrow>
       load_satellites accepts net url m = Inr []"
    using shifted_groups_rejected [where net = net and url = url and accepts = accepts
        and m = m, OF assms(1,2)] assms(3)
    by metis
  from one two three four five show ?thesis
    by blast
qed

theorem load_satellites_positional_witness:
  "load_satellites nul_free
     (serve (ascii ''A'' @ [10] @ ascii ''1 a'' @ [10] @ ascii ''2 b'' @ [10] @
        ascii ''B'' @ [10] @ ascii ''1 c'' @ [10] @ ascii ''2 d'' @ [10])) [] 30
   = Inr [element_record (ascii ''1 a'') (ascii ''2 b'') (ascii ''A''),
          element_record (ascii ''1 c'') (ascii ''2 d'') (ascii ''B'')] \<and>
   load_satellites nul_free
     (serve (ascii ''extra'' @ [10] @ ascii ''A'' @ [10] @ ascii ''1 a'' @ [10] @
        ascii ''2 b'' @ [10] @ ascii ''B'' @ [10] @ ascii ''1 c'' @ [10] @ ascii ''2 d'' @ [10]))
     [] 30
   = Inr []"
proof -
  define ls where "ls = [ascii ''A'', ascii ''1 a'', ascii ''2 b'', ascii ''B'', ascii ''1 c'',
    ascii ''2 d'']"
  define blob where "blob = ascii ''A'' @ [10] @ ascii ''1 a'' @ [10] @ ascii ''2 b'' @ [10] @
        ascii ''B'' @ [10] @ ascii ''1 c'' @ [10] @ ascii ''2 d'' @ [10]"
  define r where "r = \<lparr>status_code = 200, response_text = blob\<rparr>"
  define r' where "r' = \<lparr>status_code = 200, response_text = ascii ''extra'' @ [10] @ blob\<rparr>"
  have h1: "serve blob [] = Inr r" "serve (ascii ''extra'' @ [10] @ blob) [] = Inr r'"
    by (simp_all add: serve_def r_def r'_def)
  have h2: "raise_for_status r = Inr ()" "raise_for_status r' = Inr ()"
    by (simp_all add: raise_for_status_def r_def r'_def)
  have h3: "ls = splitlines (response_text r)"
    by (simp add: r_def blob_def ls_def eval_text)
  have h3': "ascii ''extra'' # ls = splitlines (response_text r')"
    by (simp add: r'_def blob_def ls_def eval_text)
  have "length ls = 6"
    by (simp add: ls_def)
  then have len: "length ls div 3 = 2" "3 dvd length ls"
    by simp_all
  have ok: "\<forall>k<length ls div 3. startswith (ls ! (3 * k + 1)) (ascii ''1 '') \<or>
          startswith (strip (ls ! (3 * k + 1))) (ascii ''1 '')"
    unfolding len by (simp add: ls_def less_Suc_eq numeral_2_eq_2 eval_parse)
  have "\<forall>g\<in>set (spec_groups ls). \<not> refused nul_free g"
    by (simp add: ls_def eval_refused)
  with h1(1) h2(1) h3 obtain sats where s: "load_satellites nul_free (serve blob) [] 30 = Inr sats"
    by (simp add: load_satellites_returns)
  with load_satellites_positional [of "serve blob" "[]" r ls nul_free 30, OF h1(1) h2(1) h3]
  have "sats = take (nat 30) (concat (map
        (\<lambda>k. if startswith (strip (ls ! (3 * k + 1))) (ascii ''1 '') \<and>
                 startswith (strip (ls ! (3 * k + 2))) (ascii ''2 '')
              then [element_record (strip (ls ! (3 * k + 1))) (strip (ls ! (3 * k + 2)))
                      (strip (ls ! (3 * k)))]
              else [])
        [0..<length ls div 3]))"
    by blast
  also have "[0..<length ls div 3] = [0, 1]"
    unfolding len by (simp add: upt_rec)
  finally have a: "sats =
     [element_record (ascii ''1 a'') (ascii ''2 b'') (ascii ''A''),
      element_record (ascii ''1 c'') (ascii ''2 d'') (ascii ''B'')]"
    by (simp add: ls_def eval_parse)
  from load_satellites_positional [of "serve (ascii ''extra'' @ [10] @ blob)" "[]" r'
      "ascii ''extra'' # ls" nul_free 30, OF h1(2) h2(2) h3'] len(2) ok
  have b: "load_satellites nul_free (serve (ascii ''extra'' @ [10] @ blob)) [] 30 = Inr []"
    by blast
  from s a b show ?thesis
    unfolding blob_def by simp
qed

section \<open>Properties of the frames\<close>

subsection \<open>Loops, colors and markers\<close>

lemma for_each_map:
  "(\<And>x. x \<in> set xs \<Longrightarrow> f x = Inr (g x)) \<Longrightarrow> for_each f xs = Inr (map g xs)"
  by (induction xs) simp_all

lemma for_each_Inr:
  "for_each f xs = Inr ys \<Longrightarrow>
   length ys = length xs \<and> (\<forall>k<length xs. f (xs ! k) = Inr (ys ! k))"
proof (induction xs arbitrary: ys)
  case Nil
  then show ?case by simp
next
  case (Cons x xs)
  from Cons.prems obtain y ys' where y: "f x = Inr y" and r: "for_each f xs = Inr ys'"
    and ys: "ys = y # ys'"
    by (auto split: sum.splits)
  from Cons.IH [OF r] have "length ys' = length xs" "\<forall>k<length xs. f (xs ! k) = Inr (ys' ! k)"
    by simp_all
  with y ys show ?case
    by (auto simp: nth_Cons split: nat.splits)
qed

lemma concat_replicate_nth:
  "i < n * length xs \<Longrightarrow> concat (replicate n xs) ! i = xs ! (i mod length xs)"
proof (induction n arbitrary: i)
  case 0
  then show ?case by simp
next
  case (Suc n)
  show ?case
  proof (cases "i < length xs")
    case True
    then show ?thesis
      by (simp add: nth_append)
  next
    case False
    with Suc.prems have "i - length xs < n * length xs"
      by simp
    then have "concat (replicate n xs) ! (i - length xs) = xs ! ((i - length xs) mod length xs)"
      by (rule Suc.IH)
    with False show ?thesis
      by (simp add: nth_append le_mod_geq)
  qed
qed

lemma length_palette: "length palette = 10"
  by (simp add: palette_def)

lemma length_colors: "length colors = 40"
  by (simp add: colors_def list_mul_def MAX_SATS_def length_concat length_palette sum_list_replicate)

lemma colors_nth: "i < 40 \<Longrightarrow> colors ! i = palette ! (i mod 10)"
proof -
  assume "i < 40"
  then have "i < 4 * length palette"
    by (simp add: length_palette)
  then have "concat (replicate 4 palette) ! i = palette ! (i mod length palette)"
    by (rule concat_replicate_nth)
  then show ?thesis
    by (simp add: colors_def list_mul_def MAX_SATS_def length_palette)
qed

lemma getitem_colors:
  "getitem colors i = Inr c \<Longrightarrow> c = palette ! (i mod 10)"
  by (auto simp: getitem_def length_colors colors_nth split: if_splits)

lemma marker_body_iff:
  "((case getitem ps i of Inl e \<Rightarrow> Inl e | Inr pos \<Rightarrow>
       (case getitem2 pos 0 k of Inl e \<Rightarrow> Inl e | Inr px \<Rightarrow>
        (case getitem2 pos 1 k of Inl e \<Rightarrow> Inl e | Inr py \<Rightarrow>
         (case getitem2 pos 2 k of Inl e \<Rightarrow> Inl e | Inr pz \<Rightarrow>
          (case getitem colors i of Inl e \<Rightarrow> Inl e | Inr color \<Rightarrow>
           (case getitem ns i of Inl e \<Rightarrow> Inl e | Inr name \<Rightarrow>
              Inr \<lparr>sc_x = [px], sc_y = [py], sc_z = [pz], sc_mode = ''markers'',
                   sc_line = None, sc_marker = Some (8, color), sc_name = name,
                   sc_hoverinfo = None\<rparr>)))))) = Inr m)
   \<longleftrightarrow> marker_in_range ps ns k i \<and> m = spec_marker (ps ! i) (colors ! i) (ns ! i) k"
  by (auto simp: getitem_def getitem2_def spec_marker_def marker_in_range_def)

lemma for_each_upt_Inr:
  assumes "for_each f [0..<n] = Inr ys"
  shows "length ys = n \<and> (\<forall>k<n. f k = Inr (ys ! k))"
  using for_each_Inr [OF assms] by simp

lemma marker_updates_iff:
  "marker_updates at sats k = Inr ms \<longleftrightarrow>
     (\<forall>i<length sats. marker_in_range (positions at sats) (names sats) k i) \<and>
     ms = map (\<lambda>i. spec_marker (positions at sats ! i) (colors ! i) (names sats ! i) k)
            [0..<length sats]"
  (is "?L \<longleftrightarrow> ?R")
proof
  assume ?L
  note for_each_upt_Inr [OF this [unfolded marker_updates_def], unfolded marker_body_iff]
  then have len: "length ms = length sats"
    and each: "\<forall>i<length sats. marker_in_range (positions at sats) (names sats) k i \<and>
        ms ! i = spec_marker (positions at sats ! i) (colors ! i) (names sats ! i) k"
    by blast+
  from len each have "ms = map (\<lambda>i. spec_marker (positions at sats ! i) (colors ! i)
      (names sats ! i) k) [0..<length sats]"
    by (intro nth_equalityI) simp_all
  with each show ?R
    by blast
next
  assume r: ?R
  then have "\<And>i. i \<in> set [0..<length sats] \<Longrightarrow>
      (case getitem (positions at sats) i of Inl e \<Rightarrow> Inl e | Inr pos \<Rightarrow>
       (case getitem2 pos 0 k of Inl e \<Rightarrow> Inl e | Inr px \<Rightarrow>
        (case getitem2 pos 1 k of Inl e \<Rightarrow> Inl e | Inr py \<Rightarrow>
         (case getitem2 pos 2 k of Inl e \<Rightarrow> Inl e | Inr pz \<Rightarrow>
          (case getitem colors i of Inl e \<Rightarrow> Inl e | Inr color \<Rightarrow>
           (case getitem (names sats) i of Inl e \<Rightarrow> Inl e | Inr name \<Rightarrow>
              Inr \<lparr>sc_x = [px], sc_y = [py], sc_z = [pz], sc_mode = ''markers'',
                   sc_line = None, sc_marker = Some (8, color), sc_name = name,
                   sc_hoverinfo = None\<rparr>)))))) =
      Inr (spec_marker (positions at sats ! i) (colors ! i) (names sats ! i) k)"
    by (simp add: marker_body_iff)
  then have "marker_updates at sats k =
      Inr (map (\<lambda>i. spec_marker (positions at sats ! i) (colors ! i) (names sats ! i) k)
        [0..<length sats])"
    unfolding marker_updates_def by (rule for_each_map)
  with r show ?L
    by simp
qed

lemma initial_markers_eq: "initial_markers at sats = marker_updates at sats 0"
  by (simp add: initial_markers_def marker_updates_def)

lemma frames_Inr:
  assumes "frames at sats = Inr fs"
  shows "length fs = NUM_FRAMES \<and>
    (\<forall>k<NUM_FRAMES. marker_updates at sats k = Inr (frame_data (fs ! k)) \<and>
       frame_name (fs ! k) = str_nat k)"
proof -
  from for_each_upt_Inr [OF assms [unfolded frames_def]]
  have len: "length fs = NUM_FRAMES"
    and each: "\<forall>k<NUM_FRAMES.
      (case marker_updates at sats k of Inl e \<Rightarrow> Inl e
       | Inr updates \<Rightarrow> Inr \<lparr>frame_data = updates, frame_name = str_nat k\<rparr>) = Inr (fs ! k)"
    by blast+
  have "marker_updates at sats k = Inr (frame_data (fs ! k)) \<and> frame_name (fs ! k) = str_nat k"
    if "k < NUM_FRAMES" for k
  proof (cases "marker_updates at sats k")
    case (Inl e)
    with each that show ?thesis
      by auto
  next
    case (Inr updates)
    with each that have "fs ! k = \<lparr>frame_data = updates, frame_name = str_nat k\<rparr>"
      by auto
    with Inr show ?thesis
      by simp
  qed
  with len show ?thesis
    by blast
qed

lemma frames_ok:
  assumes "\<And>k. k < NUM_FRAMES \<Longrightarrow> \<exists>ms. marker_updates at sats k = Inr ms"
  shows "\<exists>fs. frames at sats = Inr fs"
proof -
  define g where "g k = \<lparr>frame_data = projr (marker_updates at sats k), frame_name = str_nat k\<rparr>"
    for k
  have "(case marker_updates at sats k of Inl e \<Rightarrow> Inl e
       | Inr updates \<Rightarrow> Inr \<lparr>frame_data = updates, frame_name = str_nat k\<rparr>) = Inr (g k)"
    if "k \<in> set [0..<NUM_FRAMES]" for k
  proof -
    from that have "k < NUM_FRAMES"
      by simp
    then obtain ms where "marker_updates at sats k = Inr ms"
      using assms by blast
    then show ?thesis
      by (simp add: g_def)
  qed
  then have "frames at sats = Inr (map g [0..<NUM_FRAMES])"
    unfolding frames_def by (rule for_each_map)
  then show ?thesis
    by blast
qed

lemma in_range_of_shape:
  assumes "\<forall>sat\<in>set sats. shape_3xN (at sat t_grid)" and "length sats \<le> length colors"
    and "k < NUM_FRAMES" and "i < length sats"
  shows "marker_in_range (positions at sats) (names sats) k i"
proof -
  from assms(1,4) have s: "shape_3xN (at (sats ! i) t_grid)"
    by simp
  then have "length (at (sats ! i) t_grid) = 3"
    and "\<forall>r<3. length (at (sats ! i) t_grid ! r) = NUM_FRAMES"
    by (simp_all add: shape_3xN_def list_all_length)
  with assms(2-4) show ?thesis
    by (simp add: marker_in_range_def positions_def names_def)
qed

lemma map_upt_Suc_shift: "map f [0..<Suc n] = f 0 # map (\<lambda>k. f (Suc k)) [0..<n]"
  by (simp add: upt_conv_Cons map_Suc_upt [symmetric] del: upt_Suc)

lemma range_step_eq:
  "0 < step \<Longrightarrow> stop \<le> start + step * n \<Longrightarrow> (n = 0 \<or> start + step * (n - 1) < stop) \<Longrightarrow>
   range_step start stop step = map (\<lambda>k. start + step * k) [0..<n]"
proof (induction n arbitrary: start)
  case 0
  then show ?case
    by (simp add: range_step.simps [of start stop step])
next
  case (Suc n)
  from Suc.prems have lt: "start < stop"
    by (cases n) auto
  have "range_step (start + step) stop step = map (\<lambda>k. start + step + step * k) [0..<n]"
  proof (rule Suc.IH)
    show "0 < step" by fact
    show "stop \<le> start + step + step * n"
      using Suc.prems(2) by (simp add: algebra_simps)
    show "n = 0 \<or> start + step + step * (n - 1) < stop"
    proof (cases n)
      case 0
      then show ?thesis by simp
    next
      case (Suc j)
      with Suc.prems(3) show ?thesis
        by (simp add: algebra_simps)
    qed
  qed
  with lt \<open>0 < step\<close> show ?case
    by (simp add: range_step.simps [of start stop step] map_upt_Suc_shift algebra_simps
        del: upt_Suc)
qed

lemma range_step_frames: "range_step 0 NUM_FRAMES 2 = map (\<lambda>k. 2 * k) [0..<150]"
  using range_step_eq [of 2 NUM_FRAMES 0 150] by (simp add: NUM_FRAMES_def)

lemma export_loop_eq:
  "(\<And>n. n \<in> set nums \<Longrightarrow> n < length fs) \<Longrightarrow>
   export_loop traces fs nums idx =
     Inr (map (\<lambda>j.
       \<lparr>image_path = ''assets/frames/frame_'' @ format_04d (idx + j) @ ''.png'',
        image_data = [earth] @ map Scatter traces @ map Scatter (frame_data (fs ! (nums ! j)))\<rparr>)
       [0..<length nums])"
proof (induction nums arbitrary: idx)
  case Nil
  then show ?case by simp
next
  case (Cons n rest)
  have "export_loop traces fs rest (idx + 1) =
     Inr (map (\<lambda>j.
       \<lparr>image_path = ''assets/frames/frame_'' @ format_04d (idx + 1 + j) @ ''.png'',
        image_data = [earth] @ map Scatter traces @ map Scatter (frame_data (fs ! (rest ! j)))\<rparr>)
       [0..<length rest])"
    using Cons.prems by (intro Cons.IH) simp
  moreover have "getitem fs n = Inr (fs ! n)"
    using Cons.prems by (simp add: getitem_def)
  ultimately show ?case
    by (simp add: map_upt_Suc_shift Let_def del: upt_Suc)
qed

lemma shape_still: "shape_3xN (still c sat t_grid)"
  by (simp add: shape_3xN_def still_def t_grid_def numeral_3_eq_3)

lemma marker_updates_ok:
  assumes "\<forall>sat\<in>set sats. shape_3xN (at sat t_grid)" and "length sats \<le> length colors"
    and "k < NUM_FRAMES"
  shows "marker_updates at sats k =
     Inr (map (\<lambda>i. spec_marker (positions at sats ! i) (colors ! i) (names sats ! i) k)
            [0..<length sats])"
  using assms by (simp add: marker_updates_iff in_range_of_shape)

subsection \<open>The script\<close>

lemma script_Inr:
  assumes "script accepts net at = Inr run"
  shows "load_satellites accepts net STARLINK_URL MAX_SATS = Inr (run_satellites run) \<and>
     orbit_traces at (run_satellites run) = Inr (run_orbit_traces run) \<and>
     initial_markers at (run_satellites run) = Inr (run_initial_markers run) \<and>
     frames at (run_satellites run) = Inr (run_frames run) \<and>
     export_frames (run_orbit_traces run) (run_frames run) = Inr (run_exported run) \<and>
     run_positions run = positions at (run_satellites run) \<and>
     run_names run = names (run_satellites run)"
  using assms by (auto simp: script_def split: sum.splits)

lemma load_satellites_length:
  assumes "load_satellites accepts net url m = Inr sats"
  shows "length sats \<le> nat m"
proof -
  from assms obtain r where r: "net url = Inr r" "raise_for_status r = Inr ()"
    by (auto simp: load_satellites_def split: sum.splits)
  from load_satellites_Inr [OF r assms] show ?thesis
    by (simp add: length_spec_parse)
qed

lemma orbit_body_iff:
  "((case getitem pos 0 of Inl e \<Rightarrow> Inl e | Inr px \<Rightarrow>
       (case getitem pos 1 of Inl e \<Rightarrow> Inl e | Inr py \<Rightarrow>
        (case getitem pos 2 of Inl e \<Rightarrow> Inl e | Inr pz \<Rightarrow>
         (case getitem colors i of Inl e \<Rightarrow> Inl e | Inr color \<Rightarrow>
          (case getitem ns i of Inl e \<Rightarrow> Inl e | Inr name \<Rightarrow>
             Inr \<lparr>sc_x = px, sc_y = py, sc_z = pz, sc_mode = ''lines'',
                  sc_line = Some (color, 3), sc_marker = None, sc_name = name,
                  sc_hoverinfo = Some ''name''\<rparr>))))) = Inr m)
   \<longleftrightarrow> 2 < length pos \<and> i < length colors \<and> i < length ns \<and>
       m = \<lparr>sc_x = pos ! 0, sc_y = pos ! 1, sc_z = pos ! 2, sc_mode = ''lines'',
            sc_line = Some (colors ! i, 3), sc_marker = None, sc_name = ns ! i,
            sc_hoverinfo = Some ''name''\<rparr>"
  by (auto simp: getitem_def)

lemma orbit_traces_Inr:
  assumes "orbit_traces at sats = Inr ts"
  shows "length ts = length sats \<and>
    (\<forall>i<length sats. i < length colors \<and>
       ts ! i = \<lparr>sc_x = positions at sats ! i ! 0, sc_y = positions at sats ! i ! 1,
            sc_z = positions at sats ! i ! 2, sc_mode = ''lines'',
            sc_line = Some (colors ! i, 3), sc_marker = None, sc_name = names sats ! i,
            sc_hoverinfo = Some ''name''\<rparr>)"
proof -
  note r = for_each_Inr [OF assms [unfolded orbit_traces_def]]
  from r have len: "length ts = length sats"
    by (simp add: positions_def)
  have "i < length colors \<and>
       ts ! i = \<lparr>sc_x = positions at sats ! i ! 0, sc_y = positions at sats ! i ! 1,
            sc_z = positions at sats ! i ! 2, sc_mode = ''lines'',
            sc_line = Some (colors ! i, 3), sc_marker = None, sc_name = names sats ! i,
            sc_hoverinfo = Some ''name''\<rparr>" if i: "i < length sats" for i
  proof -
    from i have "i < length (enumerate 0 (positions at sats))"
      by (simp add: positions_def)
    with r have "(case enumerate 0 (positions at sats) ! i of (i, pos) \<Rightarrow>
       (case getitem pos 0 of Inl e \<Rightarrow> Inl e | Inr px \<Rightarrow>
        (case getitem pos 1 of Inl e \<Rightarrow> Inl e | Inr py \<Rightarrow>
         (case getitem pos 2 of Inl e \<Rightarrow> Inl e | Inr pz \<Rightarrow>
          (case getitem colors i of Inl e \<Rightarrow> Inl e | Inr color \<Rightarrow>
           (case getitem (names sats) i of Inl e \<Rightarrow> Inl e | Inr name \<Rightarrow>
              Inr \<lparr>sc_x = px, sc_y = py, sc_z = pz, sc_mode = ''lines'',
                   sc_line = Some (color, 3), sc_marker = None, sc_name = name,
                   sc_hoverinfo = Some ''name''\<rparr>)))))) = Inr (ts ! i)"
      by blast
    moreover from i have "enumerate 0 (positions at sats) ! i = (i, positions at sats ! i)"
      by (simp add: nth_enumerate_eq positions_def)
    ultimately show ?thesis
      by (simp only: prod.case orbit_body_iff)
  qed
  with len show ?thesis
    by blast
qed

lemma orbit_traces_ok:
  assumes "\<forall>sat\<in>set sats. shape_3xN (at sat t_grid)" and "length sats \<le> length colors"
  shows "\<exists>ts. orbit_traces at sats = Inr ts"
proof -
  define g where "g p = (case p of (i, pos) \<Rightarrow>
      \<lparr>sc_x = pos ! 0, sc_y = pos ! 1, sc_z = pos ! 2, sc_mode = ''lines'',
            sc_line = Some (colors ! i, 3), sc_marker = None, sc_name = names sats ! i,
            sc_hoverinfo = Some ''name''\<rparr>)" for p :: "nat \<times> 'a ndarray"
  have "(case p of (i, pos) \<Rightarrow>
       (case getitem pos 0 of Inl e \<Rightarrow> Inl e | Inr px \<Rightarrow>
        (case getitem pos 1 of Inl e \<Rightarrow> Inl e | Inr py \<Rightarrow>
         (case getitem pos 2 of Inl e \<Rightarrow> Inl e | Inr pz \<Rightarrow>
          (case getitem colors i of Inl e \<Rightarrow> Inl e | Inr color \<Rightarrow>
           (case getitem (names sats) i of Inl e \<Rightarrow> Inl e | Inr name \<Rightarrow>
              Inr \<lparr>sc_x = px, sc_y = py, sc_z = pz, sc_mode = ''lines'',
                   sc_line = Some (color, 3), sc_marker = None, sc_name = name,
                   sc_hoverinfo = Some ''name''\<rparr>)))))) = Inr (g p)"
    if "p \<in> set (enumerate 0 (positions at sats))" for p
  proof -
    obtain i pos where p: "p = (i, pos)"
      by (cases p)
    with that have i: "i < length sats" and pos: "pos = at (sats ! i) t_grid"
      by (auto simp: in_set_enumerate_eq positions_def)
    with assms(1) have "length pos = 3"
      by (simp add: shape_3xN_def)
    with i assms(2) show ?thesis
      unfolding p g_def prod.case orbit_body_iff by (simp add: names_def)
  qed
  then have "orbit_traces at sats = Inr (map g (enumerate 0 (positions at sats)))"
    unfolding orbit_traces_def by (rule for_each_map)
  then show ?thesis
    by blast
qed

lemma export_frames_eq:
  assumes "length fs = NUM_FRAMES"
  shows "export_frames traces fs =
     Inr (map (\<lambda>k.
       \<lparr>image_path = ''assets/frames/frame_'' @ format_04d k @ ''.png'',
        image_data = [earth] @ map Scatter traces @ map Scatter (frame_data (fs ! (2 * k)))\<rparr>)
       [0..<150])"
proof -
  have "\<And>n. n \<in> set (map (\<lambda>k. 2 * k) [0..<150]) \<Longrightarrow> n < length fs"
    using assms by (auto simp: NUM_FRAMES_def)
  from export_loop_eq [OF this, of "map (\<lambda>k. 2 * k) [0..<150]" traces 0]
  show ?thesis
    by (simp add: export_frames_def range_step_frames cong: map_cong)
qed

lemma script_ok:
  assumes "net STARLINK_URL = Inr r" and "raise_for_status r = Inr ()"
    and "\<forall>g\<in>set (spec_groups (splitlines (response_text r))). \<not> refused accepts g"
    and "\<forall>sat. shape_3xN (at sat t_grid)"
  shows "\<exists>run. script accepts net at = Inr run"
proof -
  define sats where "sats = spec_parse (splitlines (response_text r)) MAX_SATS"
  have l: "load_satellites accepts net STARLINK_URL MAX_SATS = Inr sats"
    using assms(1-3) by (simp add: load_satellites_returns sats_def)
  have c: "length sats \<le> length colors"
    using length_spec_parse [of "splitlines (response_text r)" MAX_SATS]
    by (simp add: sats_def length_colors MAX_SATS_def)
  have sh: "\<forall>sat\<in>set sats. shape_3xN (at sat t_grid)"
    using assms(4) by simp
  from orbit_traces_ok [where at = at and sats = sats, OF sh c]
  obtain ts where ts: "orbit_traces at sats = Inr ts"
    by blast
  have mu: "\<And>k. k < NUM_FRAMES \<Longrightarrow> \<exists>ms. marker_updates at sats k = Inr ms"
    using sh c by (simp add: marker_updates_ok)
  then obtain fs where fs: "frames at sats = Inr fs"
    using frames_ok [of at sats] by blast
  from mu [of 0] obtain ms where ms: "initial_markers at sats = Inr ms"
    by (auto simp: initial_markers_eq NUM_FRAMES_def)
  from frames_Inr [OF fs] have "length fs = NUM_FRAMES"
    by simp
  then obtain images where "export_frames ts fs = Inr images"
    by (simp add: export_frames_eq)
  with l ts fs ms show ?thesis
    by (simp add: script_def)
qed

subsection \<open>Claims about the frames\<close>

text \<open>
  C6. When the propagator returns arrays of shape (3, \<open>NUM_FRAMES\<close>) and there are at
  most \<open>MAX_SATS\<close> satellites, the frames are built without an exception: one frame
  per time-grid index \<open>k\<close> from 0 to \<open>NUM_FRAMES - 1\<close>, named \<open>str(k)\<close>, with one
  marker per satellite in the order of the satellites; the marker of satellite \<open>i\<close> has
  the coordinates \<open>positions[i][0, k]\<close>, \<open>positions[i][1, k]\<close>, \<open>positions[i][2, k]\<close>,
  the color \<open>colors[i]\<close> and the name of satellite \<open>i\<close> cut to 20 characters.
\<close>

theorem frames_markers:
  assumes "\<forall>sat\<in>set sats. shape_3xN (at sat t_grid)" and "int (length sats) \<le> MAX_SATS"
  shows "\<exists>fs. frames at sats = Inr fs \<and> length fs = NUM_FRAMES \<and>
    (\<forall>k<NUM_FRAMES. frame_name (fs ! k) = str_nat k \<and>
       length (frame_data (fs ! k)) = length sats \<and>
       (\<forall>i<length sats. frame_data (fs ! k) ! i =
          \<lparr>sc_x = [positions at sats ! i ! 0 ! k], sc_y = [positions at sats ! i ! 1 ! k],
           sc_z = [positions at sats ! i ! 2 ! k], sc_mode = ''markers'', sc_line = None,
           sc_marker = Some (8, colors ! i), sc_name = take 20 (sat_name (sats ! i)),
           sc_hoverinfo = None\<rparr>))"
proof -
  from assms(2) have c: "length sats \<le> length colors"
    by (simp add: length_colors MAX_SATS_def)
  have ok: "marker_updates at sats k =
     Inr (map (\<lambda>i. spec_marker (positions at sats ! i) (colors ! i) (names sats ! i) k)
            [0..<length sats])" if "k < NUM_FRAMES" for k
    using assms(1) c that by (rule marker_updates_ok)
  then obtain fs where fs: "frames at sats = Inr fs"
    using frames_ok [of at sats] by blast
  from frames_Inr [OF fs] have len: "length fs = NUM_FRAMES"
    and each: "\<forall>k<NUM_FRAMES. marker_updates at sats k = Inr (frame_data (fs ! k)) \<and>
       frame_name (fs ! k) = str_nat k"
    by blast+
  have "frame_name (fs ! k) = str_nat k \<and>
       length (frame_data (fs ! k)) = length sats \<and>
       (\<forall>i<length sats. frame_data (fs ! k) ! i =
          \<lparr>sc_x = [positions at sats ! i ! 0 ! k], sc_y = [positions at sats ! i ! 1 ! k],
           sc_z = [positions at sats ! i ! 2 ! k], sc_mode = ''markers'', sc_line = None,
           sc_marker = Some (8, colors ! i), sc_name = take 20 (sat_name (sats ! i)),
           sc_hoverinfo = None\<rparr>)" if k: "k < NUM_FRAMES" for k
  proof -
    from each k ok [OF k] have d: "frame_data (fs ! k) =
        map (\<lambda>i. spec_marker (positions at sats ! i) (colors ! i) (names sats ! i) k)
            [0..<length sats]"
      by simp
    from each k have "frame_name (fs ! k) = str_nat k"
      by simp
    with d show ?thesis
      by (simp add: spec_marker_def names_def)
  qed
  with fs len show ?thesis
    by blast
qed

theorem frames_markers_witness:
  "\<exists>fs. frames (still (7::nat)) [element_record (ascii ''1 a'') (ascii ''2 b'') (ascii ''A'')] = Inr fs \<and>
     length fs = 300 \<and>
     frame_data (fs ! 299) =
       [\<lparr>sc_x = [7], sc_y = [7], sc_z = [7], sc_mode = ''markers'', sc_line = None,
         sc_marker = Some (8, ''#636EFA''), sc_name = ascii ''A'', sc_hoverinfo = None\<rparr>]"
proof -
  define at0 :: "nat propagator" where "at0 = still 7"
  define sats where "sats = [element_record (ascii ''1 a'') (ascii ''2 b'') (ascii ''A'')]"
  have h1: "\<forall>sat\<in>set sats. shape_3xN (at0 sat t_grid)"
    by (simp add: shape_still at0_def)
  have h2: "int (length sats) \<le> MAX_SATS"
    by (simp add: sats_def MAX_SATS_def)
  from frames_markers [of sats at0, OF h1 h2] obtain fs where fs: "frames at0 sats = Inr fs"
    "length fs = NUM_FRAMES"
    "\<forall>k<NUM_FRAMES. length (frame_data (fs ! k)) = length sats \<and>
       (\<forall>i<length sats. frame_data (fs ! k) ! i =
          \<lparr>sc_x = [positions at0 sats ! i ! 0 ! k],
           sc_y = [positions at0 sats ! i ! 1 ! k],
           sc_z = [positions at0 sats ! i ! 2 ! k], sc_mode = ''markers'', sc_line = None,
           sc_marker = Some (8, colors ! i), sc_name = take 20 (sat_name (sats ! i)),
           sc_hoverinfo = None\<rparr>)"
    by blast
  have k: "299 < NUM_FRAMES"
    by (simp add: NUM_FRAMES_def)
  with fs(3) have l: "length (frame_data (fs ! 299)) = 1"
    and m: "frame_data (fs ! 299) ! 0 =
          \<lparr>sc_x = [positions at0 sats ! 0 ! 0 ! 299],
           sc_y = [positions at0 sats ! 0 ! 1 ! 299],
           sc_z = [positions at0 sats ! 0 ! 2 ! 299], sc_mode = ''markers'', sc_line = None,
           sc_marker = Some (8, colors ! 0), sc_name = take 20 (sat_name (sats ! 0)),
           sc_hoverinfo = None\<rparr>"
    by (simp_all add: sats_def)
  have p: "positions at0 sats ! 0 = replicate 3 (replicate 300 7)"
    by (simp add: positions_def sats_def still_def t_grid_def NUM_FRAMES_def at0_def)
  have c: "colors ! 0 = ''#636EFA''"
    by (simp add: colors_nth palette_def)
  from l obtain mk where mk: "frame_data (fs ! 299) = [mk]"
    by (cases "frame_data (fs ! 299)") auto
  with m p c have "frame_data (fs ! 299) =
       [\<lparr>sc_x = [7], sc_y = [7], sc_z = [7], sc_mode = ''markers'', sc_line = None,
         sc_marker = Some (8, ''#636EFA''), sc_name = ascii ''A'', sc_hoverinfo = None\<rparr>]"
    by (simp add: sats_def element_record_def ascii_def)
  with fs(1,2) show ?thesis
    unfolding sats_def at0_def by (simp add: NUM_FRAMES_def)
qed

text \<open>
  C7. Whenever the frames are built, the initial markers (built by their own loop,
  lines 77 to 85) are built too and are the data of the frame at index 0, which is the
  frame named \<open>str(0)\<close>: the same markers in the same order, with the same positions,
  names and attributes.
\<close>

theorem initial_markers_are_frame_0:
  assumes "frames at sats = Inr fs"
  shows "initial_markers at sats = Inr (frame_data (fs ! 0)) \<and> frame_name (fs ! 0) = str_nat 0"
proof -
  have "0 < NUM_FRAMES"
    by (simp add: NUM_FRAMES_def)
  with frames_Inr [OF assms] show ?thesis
    by (simp add: initial_markers_eq)
qed

theorem initial_markers_are_frame_0_witness:
  "\<exists>fs. frames (still (7::nat)) [element_record (ascii ''1 a'') (ascii ''2 b'') (ascii ''A'')] = Inr fs \<and>
     initial_markers (still (7::nat)) [element_record (ascii ''1 a'') (ascii ''2 b'') (ascii ''A'')] =
       Inr (frame_data (fs ! 0)) \<and>
     initial_markers (still (7::nat)) [element_record (ascii ''1 a'') (ascii ''2 b'') (ascii ''A'')] =
       Inr [\<lparr>sc_x = [7], sc_y = [7], sc_z = [7], sc_mode = ''markers'', sc_line = None,
         sc_marker = Some (8, ''#636EFA''), sc_name = ascii ''A'', sc_hoverinfo = None\<rparr>]"
proof -
  define at0 :: "nat propagator" where "at0 = still 7"
  define sats where "sats = [element_record (ascii ''1 a'') (ascii ''2 b'') (ascii ''A'')]"
  have len: "length sats \<le> length colors"
    by (simp add: sats_def length_colors)
  have sh: "\<forall>sat\<in>set sats. shape_3xN (at0 sat t_grid)"
    by (simp add: shape_still at0_def)
  have "\<And>k. k < NUM_FRAMES \<Longrightarrow> \<exists>ms. marker_updates at0 sats k = Inr ms"
    using sh len by (simp add: marker_updates_ok)
  then obtain fs where fs: "frames at0 sats = Inr fs"
    using frames_ok [of at0 sats] by blast
  from initial_markers_are_frame_0 [of at0 sats fs, OF fs]
  have a: "initial_markers at0 sats = Inr (frame_data (fs ! 0))"
    by simp
  have "initial_markers at0 sats =
      Inr (map (\<lambda>i. spec_marker (positions at0 sats ! i) (colors ! i) (names sats ! i) 0)
            [0..<length sats])"
    unfolding initial_markers_eq using sh len by (rule marker_updates_ok) (simp add: NUM_FRAMES_def)
  also have "\<dots> = Inr [\<lparr>sc_x = [7], sc_y = [7], sc_z = [7], sc_mode = ''markers'', sc_line = None,
         sc_marker = Some (8, ''#636EFA''), sc_name = ascii ''A'', sc_hoverinfo = None\<rparr>]"
    by (simp add: sats_def spec_marker_def positions_def still_def t_grid_def NUM_FRAMES_def at0_def
        colors_nth palette_def names_def element_record_def ascii_def)
  finally show ?thesis
    using fs a unfolding sats_def at0_def by simp
qed

lemma strictly_increasing_doubles:
  "sorted_wrt (<) (map (\<lambda>k. 2 * k) [0..<n]) \<and> distinct (map (\<lambda>k. 2 * k) [0..<n])"
proof -
  have s: "sorted_wrt (<) (map (\<lambda>k. 2 * k) [0..<n])"
    by (simp add: sorted_wrt_map sorted_wrt_iff_nth_less)
  have "distinct (map (\<lambda>k. 2 * k) [0..<n])"
    by (simp add: distinct_map inj_on_def)
  with s show ?thesis
    by blast
qed

text \<open>
  C3. With the \<open>NUM_FRAMES = 300\<close> frames of the animation, the export loop over
  \<^verbatim>\<open>range(0, NUM_FRAMES, 2)\<close> writes exactly 150 images without an exception. The
  frame numbers it visits are \<open>0, 2, ..., 298\<close>, strictly increasing and pairwise
  distinct, and the \<open>k\<close>-th image (file \<open>frame_{k:04d}.png\<close>) shows the frame of the
  time-grid index \<open>2k\<close>: the frame named \<open>str(2k)\<close>, whose data are the markers of
  index \<open>2k\<close>.
\<close>

theorem export_every_second_frame:
  assumes "frames at sats = Inr fs"
  shows "\<exists>images. export_frames traces fs = Inr images \<and> length images = 150 \<and>
     range_step 0 NUM_FRAMES 2 = map (\<lambda>k. 2 * k) [0..<150] \<and>
     sorted_wrt (<) (range_step 0 NUM_FRAMES 2) \<and> distinct (range_step 0 NUM_FRAMES 2) \<and>
     (\<forall>k<150.
        image_path (images ! k) = ''assets/frames/frame_'' @ format_04d k @ ''.png'' \<and>
        image_data (images ! k) =
          [earth] @ map Scatter traces @ map Scatter (frame_data (fs ! (2 * k))) \<and>
        frame_name (fs ! (2 * k)) = str_nat (2 * k) \<and>
        marker_updates at sats (2 * k) = Inr (frame_data (fs ! (2 * k))))"
proof -
  from frames_Inr [OF assms] have len: "length fs = NUM_FRAMES"
    and each: "\<forall>k<NUM_FRAMES. marker_updates at sats k = Inr (frame_data (fs ! k)) \<and>
       frame_name (fs ! k) = str_nat k"
    by blast+
  define images where "images = map (\<lambda>k.
       \<lparr>image_path = ''assets/frames/frame_'' @ format_04d k @ ''.png'',
        image_data = [earth] @ map Scatter traces @ map Scatter (frame_data (fs ! (2 * k)))\<rparr>)
       [0..<150]"
  have e: "export_frames traces fs = Inr images"
    using len by (simp add: export_frames_eq images_def)
  have l: "length images = 150"
    by (simp add: images_def)
  have "image_path (images ! k) = ''assets/frames/frame_'' @ format_04d k @ ''.png'' \<and>
        image_data (images ! k) =
          [earth] @ map Scatter traces @ map Scatter (frame_data (fs ! (2 * k))) \<and>
        frame_name (fs ! (2 * k)) = str_nat (2 * k) \<and>
        marker_updates at sats (2 * k) = Inr (frame_data (fs ! (2 * k)))" if "k < 150" for k
  proof -
    from that have "2 * k < NUM_FRAMES"
      by (simp add: NUM_FRAMES_def)
    with each have "frame_name (fs ! (2 * k)) = str_nat (2 * k)"
      "marker_updates at sats (2 * k) = Inr (frame_data (fs ! (2 * k)))"
      by simp_all
    with that show ?thesis
      by (simp add: images_def)
  qed
  with e l strictly_increasing_doubles [of 150] show ?thesis
    by (simp add: range_step_frames)
qed

theorem export_every_second_frame_witness:
  "\<exists>fs images.
     frames (still (7::nat)) [element_record (ascii ''1 a'') (ascii ''2 b'') (ascii ''A'')] = Inr fs \<and>
     export_frames [] fs = Inr images \<and> length images = 150 \<and>
     image_path (images ! 149) = ''assets/frames/frame_0149.png'' \<and>
     frame_name (fs ! 298) = ''298''"
proof -
  define at0 :: "nat propagator" where "at0 = still 7"
  define sats where "sats = [element_record (ascii ''1 a'') (ascii ''2 b'') (ascii ''A'')]"
  have len: "length sats \<le> length colors"
    by (simp add: sats_def length_colors)
  have sh: "\<forall>sat\<in>set sats. shape_3xN (at0 sat t_grid)"
    by (simp add: shape_still at0_def)
  have "\<And>k. k < NUM_FRAMES \<Longrightarrow> \<exists>ms. marker_updates at0 sats k = Inr ms"
    using sh len by (simp add: marker_updates_ok)
  then obtain fs where fs: "frames at0 sats = Inr fs"
    using frames_ok [of at0 sats] by blast
  from export_every_second_frame [of at0 sats fs "[]", OF fs]
  obtain images where i: "export_frames [] fs = Inr images" "length images = 150"
    "\<forall>k<150. image_path (images ! k) = ''assets/frames/frame_'' @ format_04d k @ ''.png'' \<and>
        frame_name (fs ! (2 * k)) = str_nat (2 * k)"
    by blast
  have "(149::nat) < 150"
    by simp
  with i(3) have "image_path (images ! 149) = ''assets/frames/frame_'' @ format_04d 149 @ ''.png''"
    and "frame_name (fs ! (2 * 149)) = str_nat (2 * 149)"
    by blast+
  then have "image_path (images ! 149) = ''assets/frames/frame_0149.png''"
    and "frame_name (fs ! 298) = ''298''"
    by (simp_all add: format_04d_def str_nat.simps digit_char_def)
  with fs i(1,2) show ?thesis
    unfolding at0_def sats_def by blast
qed

text \<open>
  C9. For every index \<open>i\<close> below \<open>MAX_SATS\<close> the lookup \<open>colors[i]\<close> is in range and
  is the entry \<open>i mod 10\<close> of the palette of 10 colors; the list of colors has
  \<open>10 * (MAX_SATS // 10 + 1)\<close> entries, which is at least \<open>MAX_SATS\<close>. In a run of the
  script that ends without an exception there are at most \<open>MAX_SATS\<close> satellites, and
  satellite \<open>i\<close> has the palette color \<open>i mod 10\<close> in its orbit trace, in its initial
  marker and in its marker of every frame.
\<close>

theorem colors_cycle:
  "(\<forall>i. int i < MAX_SATS \<longrightarrow> getitem colors i = Inr (palette ! (i mod 10))) \<and>
   length palette = 10 \<and>
   int (length colors) = 10 * (MAX_SATS div 10 + 1) \<and> MAX_SATS \<le> int (length colors) \<and>
   (script accepts net at = Inr run \<longrightarrow>
      int (length (run_satellites run)) \<le> MAX_SATS \<and>
      (\<forall>i<length (run_satellites run).
         sc_line (run_orbit_traces run ! i) = Some (palette ! (i mod 10), 3) \<and>
         sc_marker (run_initial_markers run ! i) = Some (8, palette ! (i mod 10)) \<and>
         (\<forall>k<NUM_FRAMES.
            sc_marker (frame_data (run_frames run ! k) ! i) = Some (8, palette ! (i mod 10)))))"
proof -
  have a: "\<forall>i. int i < MAX_SATS \<longrightarrow> getitem colors i = Inr (palette ! (i mod 10))"
    by (simp add: MAX_SATS_def getitem_def length_colors colors_nth)
  have b: "int (length colors) = 10 * (MAX_SATS div 10 + 1)" "MAX_SATS \<le> int (length colors)"
    by (simp_all add: length_colors MAX_SATS_def)
  have c: "int (length (run_satellites run)) \<le> MAX_SATS \<and>
      (\<forall>i<length (run_satellites run).
         sc_line (run_orbit_traces run ! i) = Some (palette ! (i mod 10), 3) \<and>
         sc_marker (run_initial_markers run ! i) = Some (8, palette ! (i mod 10)) \<and>
         (\<forall>k<NUM_FRAMES.
            sc_marker (frame_data (run_frames run ! k) ! i) = Some (8, palette ! (i mod 10))))"
    if run: "script accepts net at = Inr run"
  proof -
    define sats where "sats = run_satellites run"
    note s = script_Inr [OF run, folded sats_def]
    from s have "load_satellites accepts net STARLINK_URL MAX_SATS = Inr sats"
      by blast
    then have "length sats \<le> nat MAX_SATS"
      by (rule load_satellites_length)
    then have le: "int (length sats) \<le> MAX_SATS"
      by (simp add: MAX_SATS_def)
    have col: "colors ! i = palette ! (i mod 10)" if "i < length sats" for i
      using that le by (simp add: colors_nth MAX_SATS_def)
    from s have ot: "orbit_traces at sats = Inr (run_orbit_traces run)"
      and im: "marker_updates at sats 0 = Inr (run_initial_markers run)"
      and fr: "frames at sats = Inr (run_frames run)"
      by (simp_all add: initial_markers_eq)
    have "sc_line (run_orbit_traces run ! i) = Some (palette ! (i mod 10), 3) \<and>
         sc_marker (run_initial_markers run ! i) = Some (8, palette ! (i mod 10)) \<and>
         (\<forall>k<NUM_FRAMES.
            sc_marker (frame_data (run_frames run ! k) ! i) = Some (8, palette ! (i mod 10)))"
      if i: "i < length sats" for i
    proof -
      from orbit_traces_Inr [OF ot] i
      have 1: "sc_line (run_orbit_traces run ! i) = Some (palette ! (i mod 10), 3)"
        by (simp add: col)
      from im i have 2: "sc_marker (run_initial_markers run ! i) = Some (8, palette ! (i mod 10))"
        by (simp add: marker_updates_iff spec_marker_def col)
      have "sc_marker (frame_data (run_frames run ! k) ! i) = Some (8, palette ! (i mod 10))"
        if "k < NUM_FRAMES" for k
      proof -
        from frames_Inr [OF fr] that
        have "marker_updates at sats k = Inr (frame_data (run_frames run ! k))"
          by simp
        with i show ?thesis
          by (simp add: marker_updates_iff spec_marker_def col)
      qed
      with 1 2 show ?thesis
        by blast
    qed
    with le show ?thesis
      unfolding sats_def by blast
  qed
  from a b c length_palette show ?thesis
    by blast
qed

theorem colors_cycle_witness:
  "\<exists>run. script nul_free
       (serve (ascii ''A'' @ [10] @ ascii ''1 a'' @ [10] @ ascii ''2 b'' @ [10]))
       (still (7::nat)) = Inr run \<and>
     run_satellites run = [element_record (ascii ''1 a'') (ascii ''2 b'') (ascii ''A'')] \<and>
     sc_line (run_orbit_traces run ! 0) = Some (''#636EFA'', 3) \<and>
     sc_marker (run_initial_markers run ! 0) = Some (8, ''#636EFA'') \<and>
     sc_marker (frame_data (run_frames run ! 299) ! 0) = Some (8, ''#636EFA'') \<and>
     getitem colors 29 = Inr ''#FECB52''"
proof -
  define at0 :: "nat propagator" where "at0 = still 7"
  define blob where "blob = ascii ''A'' @ [10] @ ascii ''1 a'' @ [10] @ ascii ''2 b'' @ [10]"
  define r where "r = \<lparr>status_code = 200, response_text = blob\<rparr>"
  have h1: "serve blob STARLINK_URL = Inr r"
    by (simp add: serve_def r_def)
  have h2: "raise_for_status r = Inr ()"
    by (simp add: raise_for_status_def r_def)
  have h3: "splitlines (response_text r) = [ascii ''A'', ascii ''1 a'', ascii ''2 b'']"
    by (simp add: r_def blob_def eval_text)
  have h4: "\<forall>g\<in>set (spec_groups (splitlines (response_text r))). \<not> refused nul_free g"
    unfolding h3 by (simp add: eval_refused)
  have "\<forall>sat. shape_3xN (at0 sat t_grid)"
    by (simp add: at0_def shape_still)
  with h1 h2 h4 obtain run where run: "script nul_free (serve blob) at0 = Inr run"
    using script_ok [of "serve blob" r nul_free at0] by blast
  from script_Inr [OF run]
  have "load_satellites nul_free (serve blob) STARLINK_URL MAX_SATS = Inr (run_satellites run)"
    by blast
  from load_satellites_Inr [OF h1 h2 this]
  have "run_satellites run = spec_parse [ascii ''A'', ascii ''1 a'', ascii ''2 b''] MAX_SATS"
    unfolding h3 .
  also have "\<dots> = [element_record (ascii ''1 a'') (ascii ''2 b'') (ascii ''A'')]"
    by (simp add: MAX_SATS_def eval_parse)
  finally have sats:
    "run_satellites run = [element_record (ascii ''1 a'') (ascii ''2 b'') (ascii ''A'')]" .
  have p: "palette ! (0 mod 10) = ''#636EFA''" "palette ! (29 mod 10) = ''#FECB52''"
    by (simp_all add: palette_def)
  have k: "(299::nat) < NUM_FRAMES" "int 29 < MAX_SATS"
    by (simp_all add: NUM_FRAMES_def MAX_SATS_def)
  from colors_cycle [of nul_free "serve blob" at0 run] run sats k p
  have "sc_line (run_orbit_traces run ! 0) = Some (''#636EFA'', 3) \<and>
     sc_marker (run_initial_markers run ! 0) = Some (8, ''#636EFA'') \<and>
     sc_marker (frame_data (run_frames run ! 299) ! 0) = Some (8, ''#636EFA'') \<and>
     getitem colors 29 = Inr ''#FECB52''"
    by auto
  with run sats show ?thesis
    unfolding at0_def blob_def by blast
qed

end
